theory Spec2Isabelle
  imports Complex_Main
begin

section \<open>Data model\<close>

text \<open>
  The program computes state densities of an impurity species on a spatial grid.
  Floating-point numbers are modelled by \<^typ>\<open>real\<close>: every statement below is about
  the exact arithmetic the code approximates. A numpy vector is a \<^typ>\<open>real list\<close>, a
  two-dimensional array a list of rows.
\<close>

type_synonym vec = "real list"
type_synonym mat = "real list list"

text \<open>The exceptions the modelled code can raise.\<close>

datatype error =
  IndexError | ValueError | ZeroDivisionError | LinAlgError | UnboundLocalError | PetscError

definition ebind :: "error + 'a \<Rightarrow> ('a \<Rightarrow> error + 'b) \<Rightarrow> error + 'b" where
  "ebind m f = (case m of Inl e \<Rightarrow> Inl e | Inr x \<Rightarrow> f x)"

text \<open>Reading \<open>xs[i]\<close> with a non-negative index: out of range raises.\<close>

definition nth_err :: "'a list \<Rightarrow> nat \<Rightarrow> error + 'a" where
  "nth_err xs i = (if i < length xs then Inr (xs ! i) else Inl IndexError)"

text \<open>
  \<open>transition.State(iz, statename, loc, statw, energy)\<close>: the class lives in the module
  \<open>transition\<close>; its fields are the ones \<open>impurity.py\<close> reads.
\<close>

record state =
  iz :: int
  statename :: string
  loc :: nat
  statw :: int
  energy :: real

text \<open>
  \<open>transition.Transition\<close>, with the attributes \<open>impurity.py\<close> reads: the two states and
  their locations, the cross-section samples, the threshold energy, the
  radiative-recombination interpolant and the spontaneous-emission rate.
\<close>

record transition =
  trans_kind :: string
  from_state :: state
  to_state :: state
  from_loc :: nat
  to_loc :: nat
  sigma :: vec
  thresh :: real
  radrec_interp :: "real \<Rightarrow> real"
  spontem_rate :: real

text \<open>The feature switches and constants of the module \<open>input\<close>.\<close>

record input_cfg =
  GS_ONLY_RADREC :: bool
  COLL_ION_REC :: bool
  RAD_REC :: bool
  COLL_EX_DEEX :: bool
  SPONT_EM :: bool
  DELTA_T :: real
  FRAC_IMP_DENS :: real

text \<open>The run object \<open>skrun\<close>: grid sizes, normalisation constants and electron data.\<close>

record skrun =
  num_x :: nat
  num_v :: nat
  vgrid :: vec
  dvc :: vec
  v_th :: real
  T_norm :: real
  n_norm :: real
  t_norm :: real
  sigma_0 :: real
  DENSITY :: vec
  TEMPERATURE :: vec
  DIST_F0 :: mat

text \<open>One row of \<open>nist_spontem.txt\<close> as pandas presents it.\<close>

record spontem_row =
  sp_iz :: int
  sp_lower :: string
  sp_upper :: string
  sp_rate :: real

text \<open>
  The collaborators that are not part of the repository's sources: the modules
  \<open>rates\<close>, \<open>transition\<close> and \<open>sk_plotting_functions\<close>, Python's \<open>int\<close> on a string and
  numpy's matrix inverse. \<open>np_inv\<close> returns \<open>None\<close> where \<open>np.linalg.inv\<close> raises
  \<open>LinAlgError\<close>.
\<close>

record env =
  inp :: input_cfg
  py_int :: "string \<Rightarrow> int option"
  mk_transition :: "string \<Rightarrow> string \<Rightarrow> skrun \<Rightarrow> state \<Rightarrow> state \<Rightarrow> string \<Rightarrow> transition"
  mk_spontem :: "string \<Rightarrow> skrun \<Rightarrow> state \<Rightarrow> state \<Rightarrow> real \<Rightarrow> transition"
  ion_rate :: "vec \<Rightarrow> vec \<Rightarrow> vec \<Rightarrow> vec \<Rightarrow> real"
  tbrec_rate :: "vec \<Rightarrow> real \<Rightarrow> vec \<Rightarrow> vec \<Rightarrow> real \<Rightarrow> real \<Rightarrow> vec \<Rightarrow> real"
  ex_rate :: "vec \<Rightarrow> vec \<Rightarrow> vec \<Rightarrow> vec \<Rightarrow> real"
  deex_rate :: "vec \<Rightarrow> vec \<Rightarrow> vec \<Rightarrow> real \<Rightarrow> real \<Rightarrow> vec \<Rightarrow> real"
  maxwellian :: "real \<Rightarrow> real \<Rightarrow> vec \<Rightarrow> vec"
  planck_h :: real
  el_mass :: real
  el_charge :: real
  np_inv :: "mat \<Rightarrow> mat option"

text \<open>The object \<open>Impurity\<close>.\<close>

record impurity =
  longname :: string
  num_z :: nat
  run :: skrun
  states :: "state list"
  tot_states :: nat
  iz_transitions :: "transition list"
  ex_transitions :: "transition list"
  radrec_transitions :: "transition list"
  spontem_transitions :: "transition list"
  dens :: "vec list"
  dens_max :: "vec list"
  tmp_dens :: "vec list"
  op_mat :: "mat list"
  rate_mat :: "mat list"
  op_mat_max :: "mat list"
  rate_mat_max :: "mat list"

section \<open>Loading transitions\<close>

text \<open>\<open>Impurity.get_state\<close>: the first state with the given stage and name, or \<open>None\<close>.\<close>

definition get_state :: "impurity \<Rightarrow> int \<Rightarrow> string \<Rightarrow> state option" where
  "get_state self z nm = find (\<lambda>s. iz s = z \<and> statename s = nm) (states self)"

text \<open>
  \<open>dtype = line_data[5].strip('\n')\<close>: Python's \<open>strip\<close> with the character set \<open>'\n'\<close>
  removes line feeds at both ends.
\<close>

definition strip_nl :: "string \<Rightarrow> string" where
  "strip_nl s = rev (dropWhile (\<lambda>c. c = CHR 0x0A) (rev (dropWhile (\<lambda>c. c = CHR 0x0A) s)))"

definition int_err :: "env \<Rightarrow> string \<Rightarrow> error + int" where
  "int_err e s = (case py_int e s of None \<Rightarrow> Inl ValueError | Some n \<Rightarrow> Inr n)"

text \<open>
  The body of the loop of \<open>Impurity.load_transitions\<close> for one line of the catalog,
  already split at tabs into \<open>line_data\<close>. The three \<open>if\<close>s on the kind are
  independent, as in the source.
\<close>

definition load_line :: "env \<Rightarrow> impurity \<Rightarrow> string list \<Rightarrow> error + impurity" where
  "load_line e self line_data =
     ebind (nth_err line_data 0) (\<lambda>trans_type.
     ebind (nth_err line_data 1) (\<lambda>f1.
     ebind (int_err e f1) (\<lambda>from_iz.
     ebind (nth_err line_data 2) (\<lambda>from_statename.
     ebind (nth_err line_data 3) (\<lambda>f3.
     ebind (int_err e f3) (\<lambda>to_iz.
     ebind (nth_err line_data 4) (\<lambda>to_statename.
       case (get_state self from_iz from_statename, get_state self to_iz to_statename) of
         (Some fs, Some ts) \<Rightarrow>
           ebind (nth_err line_data 5) (\<lambda>f5.
             let dtype = strip_nl f5;
                 s1 = (if trans_type = ''ionization'' \<and> COLL_ION_REC (inp e)
                       then self\<lparr>iz_transitions := iz_transitions self @
                              [mk_transition e ''ionization'' (longname self) (run self) fs ts dtype]\<rparr>
                       else self);
                 s2 = (if trans_type = ''radrec'' \<and> RAD_REC (inp e)
                       then s1\<lparr>radrec_transitions := radrec_transitions s1 @
                              [mk_transition e ''radrec'' (longname self) (run self) fs ts dtype]\<rparr>
                       else s1);
                 s3 = (if trans_type = ''excitation'' \<and> COLL_EX_DEEX (inp e)
                       then s2\<lparr>ex_transitions := ex_transitions s2 @
                              [mk_transition e ''excitation'' (longname self) (run self) fs ts dtype]\<rparr>
                       else s2)
             in Inr s3)
       | _ \<Rightarrow> Inr self)))))))"

fun load_lines :: "env \<Rightarrow> impurity \<Rightarrow> string list list \<Rightarrow> error + impurity" where
  "load_lines e self [] = Inr self"
| "load_lines e self (l # ls) = ebind (load_line e self l) (\<lambda>s. load_lines e s ls)"

text \<open>
  \<open>Impurity.load_spontem_transitions\<close>: for every stage \<open>z\<close> and every ordered pair of
  distinct-named states of one stage, the rows of the table with stage \<open>z\<close>, lower name
  the target's and upper name the origin's are averaged into one transition.
\<close>

definition matched_rates :: "spontem_row list \<Rightarrow> int \<Rightarrow> state \<Rightarrow> state \<Rightarrow> real list" where
  "matched_rates spontem_data z fs ts =
     map sp_rate (filter (\<lambda>r. sp_iz r = z \<and> sp_lower r = statename ts \<and> sp_upper r = statename fs)
       spontem_data)"

definition spontem_pair :: "env \<Rightarrow> spontem_row list \<Rightarrow> int \<Rightarrow> state \<Rightarrow> impurity \<Rightarrow> state \<Rightarrow> impurity" where
  "spontem_pair e spontem_data z fs self ts =
     (if iz fs = iz ts \<and> statename fs \<noteq> statename ts
      then (let m = matched_rates spontem_data z fs ts in
            if length m > 0
            then self\<lparr>spontem_transitions := spontem_transitions self @
                   [mk_spontem e (longname self) (run self) fs ts (sum_list m / real (length m))]\<rparr>
            else self)
      else self)"

definition load_spontem_transitions :: "env \<Rightarrow> spontem_row list \<Rightarrow> impurity \<Rightarrow> impurity" where
  "load_spontem_transitions e spontem_data self =
     fold (\<lambda>z s. fold (\<lambda>fs s'. fold (\<lambda>ts s''. spontem_pair e spontem_data (int z) fs s'' ts)
                                   (states self) s')
                     (states self) s)
          [0..<num_z self] self"

text \<open>
  \<open>Impurity.load_transitions\<close>, on the lines of the catalog after the header and on the
  rows of the spontaneous-emission table.
\<close>

definition load_transitions ::
  "env \<Rightarrow> string list list \<Rightarrow> spontem_row list \<Rightarrow> impurity \<Rightarrow> error + impurity" where
  "load_transitions e lines spontem_data self =
     ebind (load_lines e
              (self\<lparr>iz_transitions := [], ex_transitions := [],
                    radrec_transitions := [], spontem_transitions := []\<rparr>) lines)
       (\<lambda>s. Inr (if SPONT_EM (inp e) then load_spontem_transitions e spontem_data s else s))"

section \<open>Vectors and matrices\<close>

definition dot :: "vec \<Rightarrow> vec \<Rightarrow> real" where
  "dot xs ys = sum_list (map2 (*) xs ys)"

text \<open>\<open>M.dot(v)\<close> without the shape check.\<close>

definition mat_vec :: "mat \<Rightarrow> vec \<Rightarrow> vec" where
  "mat_vec M v = map (\<lambda>row. dot row v) M"

text \<open>\<open>M.dot(v)\<close> for a two-dimensional \<open>M\<close>: every row must be as long as \<open>v\<close>.\<close>

definition np_dot :: "mat \<Rightarrow> vec \<Rightarrow> error + vec" where
  "np_dot M v = (if list_all (\<lambda>row. length row = length v) M then Inr (mat_vec M v)
                 else Inl ValueError)"

definition identity :: "nat \<Rightarrow> mat" where
  "identity n = map (\<lambda>i. map (\<lambda>j. if i = j then 1 else 0) [0..<n]) [0..<n]"

text \<open>\<open>np.identity(n) - dt * M\<close>, for an \<open>n\<close> by \<open>n\<close> matrix \<open>M\<close>.\<close>

definition be_operator :: "real \<Rightarrow> nat \<Rightarrow> mat \<Rightarrow> mat" where
  "be_operator dt n M = map2 (map2 (\<lambda>a b. a - dt * b)) (identity n) M"

definition inv_err :: "env \<Rightarrow> mat \<Rightarrow> error + mat" where
  "inv_err e M = (case np_inv e M of None \<Rightarrow> Inl LinAlgError | Some Mi \<Rightarrow> Inr Mi)"

text \<open>\<open>M[row, col] += v\<close> with non-negative indices.\<close>

definition add_at :: "mat \<Rightarrow> nat \<Rightarrow> nat \<Rightarrow> real \<Rightarrow> error + mat" where
  "add_at M row col v =
     (if row < length M \<and> col < length (M ! row)
      then Inr (M[row := (M ! row)[col := M ! row ! col + v]])
      else Inl IndexError)"

text \<open>\<open>a / b\<close> on two Python integers.\<close>

definition py_truediv :: "int \<Rightarrow> int \<Rightarrow> error + real" where
  "py_truediv a b = (if b = 0 then Inl ZeroDivisionError else Inr (real_of_int a / real_of_int b))"

fun emap :: "('a \<Rightarrow> error + 'b) \<Rightarrow> 'a list \<Rightarrow> error + 'b list" where
  "emap f [] = Inr []"
| "emap f (x # xs) = ebind (f x) (\<lambda>y. ebind (emap f xs) (\<lambda>ys. Inr (y # ys)))"

fun efold :: "('a \<Rightarrow> 'b \<Rightarrow> error + 'b) \<Rightarrow> 'a list \<Rightarrow> 'b \<Rightarrow> error + 'b" where
  "efold f [] s = Inr s"
| "efold f (x # xs) s = ebind (f x s) (efold f xs)"

section \<open>Building the rate matrices\<close>

text \<open>
  The pattern every process of \<open>Impurity.build_rate_matrices\<close> repeats, on the kinetic
  and the Maxwellian matrix of one cell: a loss \<open>-K\<close> at \<open>(origin, origin)\<close>, then a
  gain \<open>K\<close> at \<open>(target, origin)\<close>.
\<close>

definition add_loss_gain :: "mat \<times> mat \<Rightarrow> nat \<Rightarrow> nat \<Rightarrow> real \<Rightarrow> real \<Rightarrow> error + mat \<times> mat" where
  "add_loss_gain MM origin target K K_max =
     ebind (add_at (fst MM) origin origin (- K)) (\<lambda>M1.
     ebind (add_at (snd MM) origin origin (- K_max)) (\<lambda>X1.
     ebind (add_at M1 target origin K) (\<lambda>M2.
     ebind (add_at X1 target origin K_max) (\<lambda>X2.
       Inr (M2, X2)))))"

definition collrate_const :: "skrun \<Rightarrow> real" where
  "collrate_const rn = n_norm rn * v_th rn * sigma_0 rn * t_norm rn"

definition tbrec_norm :: "env \<Rightarrow> skrun \<Rightarrow> real" where
  "tbrec_norm e rn =
     n_norm rn * sqrt ((planck_h e)\<^sup>2 / (2 * pi * el_mass e * T_norm rn * el_charge e)) ^ 3"

definition scaled :: "vec \<Rightarrow> real \<Rightarrow> vec" where
  "scaled xs c = map (\<lambda>x. x / c) xs"

text \<open>\<open>get_maxwellians\<close>: one Maxwellian per cell.\<close>

definition get_maxwellians :: "env \<Rightarrow> nat \<Rightarrow> vec \<Rightarrow> vec \<Rightarrow> vec \<Rightarrow> real \<Rightarrow> error + mat" where
  "get_maxwellians e nx ne Te vg vth =
     emap (\<lambda>i. ebind (nth_err Te i) (\<lambda>T. ebind (nth_err ne i) (\<lambda>n.
                  Inr (maxwellian e T n (scaled vg vth))))) [0..<nx]"

text \<open>Collisional ionisation and three-body recombination of one transition in cell \<open>i\<close>.\<close>

definition ion_step ::
  "env \<Rightarrow> skrun \<Rightarrow> mat \<Rightarrow> mat \<Rightarrow> nat \<Rightarrow> transition \<Rightarrow> mat \<times> mat \<Rightarrow> error + mat \<times> mat" where
  "ion_step e rn f0 f0_max i tr MM =
     ebind (nth_err f0 i) (\<lambda>f0_i.
     ebind (nth_err f0_max i) (\<lambda>f0_max_i.
       let vg = scaled (vgrid rn) (v_th rn);
           dv = scaled (dvc rn) (v_th rn);
           K_ion = collrate_const rn * ion_rate e f0_i vg dv (sigma tr);
           K_ion_max = collrate_const rn * ion_rate e f0_max_i vg dv (sigma tr)
       in
     ebind (add_loss_gain MM (from_loc tr) (to_loc tr) K_ion K_ion_max) (\<lambda>MM1.
       let eps = thresh tr / T_norm rn in
     ebind (py_truediv (statw (to_state tr)) (statw (from_state tr))) (\<lambda>statw_ratio.
     ebind (nth_err (DENSITY rn) i) (\<lambda>ne_i.
     ebind (nth_err (TEMPERATURE rn) i) (\<lambda>Te_i.
       let K_rec = ne_i * collrate_const rn * tbrec_norm e rn *
                     tbrec_rate e f0_i Te_i vg dv eps statw_ratio (sigma tr);
           K_rec_max = ne_i * collrate_const rn * tbrec_norm e rn *
                     tbrec_rate e f0_max_i Te_i vg dv eps statw_ratio (sigma tr)
       in add_loss_gain MM1 (to_loc tr) (from_loc tr) K_rec K_rec_max))))))"

text \<open>
  The radiative-recombination rate coefficient as both \<open>build_rate_matrices\<close> and
  \<open>get_radrec_E_rates\<close> compute it: \<open>max(radrec_trans.radrec_interp(Te[i]), 0.0)\<close>.
\<close>

definition alpha_radrec :: "transition \<Rightarrow> real \<Rightarrow> real" where
  "alpha_radrec tr Te_i = max (radrec_interp tr Te_i) 0"

definition radrec_step :: "skrun \<Rightarrow> nat \<Rightarrow> transition \<Rightarrow> mat \<times> mat \<Rightarrow> error + mat \<times> mat" where
  "radrec_step rn i tr MM =
     ebind (nth_err (TEMPERATURE rn) i) (\<lambda>Te_i.
     ebind (nth_err (DENSITY rn) i) (\<lambda>ne_i.
       add_loss_gain MM (from_loc tr) (to_loc tr)
         (ne_i * alpha_radrec tr Te_i) (ne_i * alpha_radrec tr Te_i)))"

text \<open>Collisional excitation and de-excitation of one transition in cell \<open>i\<close>.\<close>

definition ex_step ::
  "env \<Rightarrow> skrun \<Rightarrow> mat \<Rightarrow> mat \<Rightarrow> nat \<Rightarrow> transition \<Rightarrow> mat \<times> mat \<Rightarrow> error + mat \<times> mat" where
  "ex_step e rn f0 f0_max i tr MM =
     ebind (nth_err f0 i) (\<lambda>f0_i.
     ebind (nth_err f0_max i) (\<lambda>f0_max_i.
       let vg = scaled (vgrid rn) (v_th rn);
           dv = scaled (dvc rn) (v_th rn);
           K_ex = collrate_const rn * ex_rate e f0_i vg dv (sigma tr);
           K_ex_max = collrate_const rn * ex_rate e f0_max_i vg dv (sigma tr)
       in
     ebind (add_loss_gain MM (from_loc tr) (to_loc tr) K_ex K_ex_max) (\<lambda>MM1.
       let eps = thresh tr / T_norm rn in
     ebind (py_truediv (statw (from_state tr)) (statw (to_state tr))) (\<lambda>statw_ratio.
       let K_deex = collrate_const rn * deex_rate e f0_i vg dv eps statw_ratio (sigma tr);
           K_deex_max = collrate_const rn * deex_rate e f0_max_i vg dv eps statw_ratio (sigma tr)
       in add_loss_gain MM1 (to_loc tr) (from_loc tr) K_deex K_deex_max))))"

definition spontem_step :: "transition \<Rightarrow> mat \<times> mat \<Rightarrow> error + mat \<times> mat" where
  "spontem_step tr MM =
     add_loss_gain MM (from_loc tr) (to_loc tr) (spontem_rate tr) (spontem_rate tr)"

text \<open>
  The rate matrices of cell \<open>i\<close>: both start as zeros, the enabled processes are
  accumulated in the order of the source.
\<close>

definition zeros :: "nat \<Rightarrow> nat \<Rightarrow> mat" where
  "zeros m n = replicate m (replicate n 0)"

definition cell_rates :: "env \<Rightarrow> impurity \<Rightarrow> mat \<Rightarrow> mat \<Rightarrow> nat \<Rightarrow> error + mat \<times> mat" where
  "cell_rates e self f0 f0_max i =
     (let rn = run self; n = tot_states self in
      ebind (if COLL_ION_REC (inp e)
             then efold (ion_step e rn f0 f0_max i) (iz_transitions self) (zeros n n, zeros n n)
             else Inr (zeros n n, zeros n n)) (\<lambda>MM1.
      ebind (if RAD_REC (inp e)
             then efold (radrec_step rn i) (radrec_transitions self) MM1
             else Inr MM1) (\<lambda>MM2.
      ebind (if COLL_EX_DEEX (inp e)
             then efold (ex_step e rn f0 f0_max i) (ex_transitions self) MM2
             else Inr MM2) (\<lambda>MM3.
      if SPONT_EM (inp e)
      then efold spontem_step (spontem_transitions self) MM3
      else Inr MM3))))"

text \<open>One iteration of the loop over the cells: the two rate matrices and their operators.\<close>

definition build_cell ::
  "env \<Rightarrow> impurity \<Rightarrow> mat \<Rightarrow> mat \<Rightarrow> nat \<Rightarrow> error + (mat \<times> mat) \<times> (mat \<times> mat)" where
  "build_cell e self f0 f0_max i =
     ebind (cell_rates e self f0 f0_max i) (\<lambda>MM.
     ebind (inv_err e (be_operator (DELTA_T (inp e)) (tot_states self) (fst MM))) (\<lambda>op.
     ebind (inv_err e (be_operator (DELTA_T (inp e)) (tot_states self) (snd MM))) (\<lambda>op_max.
       Inr (MM, (op, op_max)))))"

text \<open>\<open>Impurity.build_rate_matrices\<close>.\<close>

definition build_rate_matrices :: "env \<Rightarrow> impurity \<Rightarrow> error + impurity" where
  "build_rate_matrices e self =
     (let rn = run self; f0 = transpose (DIST_F0 rn) in
      ebind (get_maxwellians e (num_x rn) (DENSITY rn) (TEMPERATURE rn) (vgrid rn) (v_th rn))
        (\<lambda>f0_max.
      ebind (emap (build_cell e self f0 f0_max) [0..<num_x rn]) (\<lambda>cells.
        Inr (self\<lparr>op_mat := map (fst \<circ> snd) cells,
                  rate_mat := map (fst \<circ> fst) cells,
                  op_mat_max := map (snd \<circ> snd) cells,
                  rate_mat_max := map (snd \<circ> fst) cells\<rparr>))))"

section \<open>Radiated power of radiative recombination\<close>

text \<open>
  \<open>Impurity.get_radrec_E\<close>: the loop keeps the value of the last matching ionisation
  transition; with no match the local \<open>eps\<close> is unbound at the \<open>return\<close>.
\<close>

definition get_radrec_E :: "impurity \<Rightarrow> transition \<Rightarrow> error + real" where
  "get_radrec_E self rr =
     (case filter (\<lambda>t. iz (from_state t) = iz (to_state rr) \<and> iz (to_state t) = iz (from_state rr))
             (iz_transitions self) of
        [] \<Rightarrow> Inl UnboundLocalError
      | m # ms \<Rightarrow> Inr (thresh (last (m # ms)) - energy (to_state rr)))"

text \<open>
  The body of the inner loop of \<open>Impurity.get_radrec_E_rates\<close>: what one transition
  adds to \<open>radrec_E_rates[i]\<close> and to \<open>radrec_E_rates_max[i]\<close>.
\<close>

definition radrec_E_term :: "env \<Rightarrow> impurity \<Rightarrow> nat \<Rightarrow> transition \<Rightarrow> real \<times> real \<Rightarrow> error + real \<times> real" where
  "radrec_E_term e self i tr acc =
     ebind (nth_err (TEMPERATURE (run self)) i) (\<lambda>Te_i.
     ebind (get_radrec_E self tr) (\<lambda>E.
       let eps = E * el_charge e in
     ebind (nth_err (DENSITY (run self)) i) (\<lambda>ne_i.
     ebind (nth_err (dens self) i) (\<lambda>d.
     ebind (nth_err d (from_loc tr)) (\<lambda>d_from.
     ebind (nth_err (dens_max self) i) (\<lambda>dm.
     ebind (nth_err dm (from_loc tr)) (\<lambda>dm_from.
       Inr (fst acc + eps * n_norm (run self) * alpha_radrec tr Te_i * ne_i * d_from / t_norm (run self),
            snd acc + eps * n_norm (run self) * alpha_radrec tr Te_i * ne_i * dm_from / t_norm (run self)))))))))"

definition get_radrec_E_rates :: "env \<Rightarrow> impurity \<Rightarrow> error + vec \<times> vec" where
  "get_radrec_E_rates e self =
     ebind (emap (\<lambda>i. if RAD_REC (inp e)
                       then efold (radrec_E_term e self i) (radrec_transitions self) (0, 0)
                       else Inr (0, 0))
              [0..<num_x (run self)]) (\<lambda>rs.
       Inr (map (\<lambda>r. fst r * (1 / 1000000)) rs, map (\<lambda>r. snd r * (1 / 1000000)) rs))"

section \<open>Direct solve\<close>

text \<open>\<open>loc_mat[-1, :] = 1.0\<close>; a matrix without rows has no last row.\<close>

definition set_last_row_ones :: "mat \<Rightarrow> error + mat" where
  "set_last_row_ones M =
     (if M = [] then Inl IndexError
      else Inr (M[length M - 1 := map (\<lambda>_. 1) (M ! (length M - 1))]))"

text \<open>\<open>rhs = np.zeros(n); rhs[-1] = dens_tot\<close>.\<close>

definition direct_rhs :: "nat \<Rightarrow> real \<Rightarrow> error + vec" where
  "direct_rhs n dens_tot =
     (if n = 0 then Inl IndexError else Inr ((replicate n 0)[n - 1 := dens_tot]))"

text \<open>
  \<open>a[i, :] = v\<close> for a row of \<open>a\<close> and a vector \<open>v\<close>: numpy copies a vector of the row's
  length, repeats a vector of length one, and refuses any other.
\<close>

definition assign_row :: "vec \<Rightarrow> vec \<Rightarrow> error + vec" where
  "assign_row row v =
     (if length v = length row then Inr v
      else if length v = 1 then Inr (replicate (length row) (hd v))
      else Inl ValueError)"

text \<open>
  One iteration of a loop of \<open>Impurity.solve\<close>, on the cell's stored matrix \<open>loc_mat\<close>
  and density row \<open>d\<close>: the matrix as it is stored afterwards and the new row.
\<close>

definition solve_cell :: "env \<Rightarrow> nat \<Rightarrow> mat \<Rightarrow> vec \<Rightarrow> error + mat \<times> vec" where
  "solve_cell e n loc_mat d =
     ebind (set_last_row_ones loc_mat) (\<lambda>M.
     ebind (direct_rhs n (sum_list d)) (\<lambda>rhs.
     ebind (inv_err e M) (\<lambda>loc_mat_inv.
     ebind (np_dot loc_mat_inv rhs) (\<lambda>x.
     ebind (assign_row d x) (\<lambda>d'.
       Inr (M, d'))))))"

definition solve_at :: "env \<Rightarrow> nat \<Rightarrow> nat \<Rightarrow> mat list \<times> vec list \<Rightarrow> error + mat list \<times> vec list" where
  "solve_at e n i S =
     ebind (nth_err (fst S) i) (\<lambda>loc_mat.
     ebind (nth_err (snd S) i) (\<lambda>d.
     ebind (solve_cell e n loc_mat d) (\<lambda>r.
       Inr ((fst S)[i := fst r], (snd S)[i := snd r]))))"

text \<open>
  \<open>Impurity.solve\<close>: the loop over the cells on the kinetic matrices and densities,
  then the same loop on the Maxwellian ones. The stored matrices are written in place.
\<close>

definition solve :: "env \<Rightarrow> impurity \<Rightarrow> error + impurity" where
  "solve e self =
     ebind (efold (solve_at e (tot_states self)) [0..<num_x (run self)]
              (rate_mat self, dens self)) (\<lambda>S1.
     ebind (efold (solve_at e (tot_states self)) [0..<num_x (run self)]
              (rate_mat_max self, dens_max self)) (\<lambda>S2.
       Inr (self\<lparr>rate_mat := fst S1, dens := snd S1,
                 rate_mat_max := fst S2, dens_max := snd S2\<rparr>)))"

section \<open>One implicit Euler step\<close>

text \<open>\<open>np.max\<close> of a flat array: an empty one raises.\<close>

fun np_max :: "vec \<Rightarrow> error + real" where
  "np_max [] = Inl ValueError"
| "np_max (x # xs) = Inr (fold max xs x)"

text \<open>
  \<open>np.abs(a - b)\<close>, flattened, for two arrays of one shape. numpy's broadcasting of
  arrays of different shapes is not modelled: \<open>init_dens\<close> gives the density arrays the
  same shape.
\<close>

definition abs_diff :: "vec list \<Rightarrow> vec list \<Rightarrow> error + vec" where
  "abs_diff a b =
     (if map length a = map length b
      then Inr (concat (map2 (map2 (\<lambda>x y. \<bar>x - y\<bar>)) a b))
      else Inl ValueError)"

text \<open>\<open>self.tmp_dens[i, :] = ops[i].dot(d[i, :])\<close>.\<close>

definition evolve_at :: "mat list \<Rightarrow> vec list \<Rightarrow> nat \<Rightarrow> vec list \<Rightarrow> error + vec list" where
  "evolve_at ops d i tmp =
     ebind (nth_err ops i) (\<lambda>op.
     ebind (nth_err d i) (\<lambda>d_i.
     ebind (np_dot op d_i) (\<lambda>x.
     ebind (nth_err tmp i) (\<lambda>row.
     ebind (assign_row row x) (\<lambda>row'.
       Inr (tmp[i := row']))))))"

text \<open>One half of \<open>Impurity.evolve\<close>: the new \<open>tmp_dens\<close> and the residual.\<close>

definition evolve_field :: "nat \<Rightarrow> mat list \<Rightarrow> vec list \<Rightarrow> vec list \<Rightarrow> error + vec list \<times> real" where
  "evolve_field nx ops d tmp =
     ebind (efold (evolve_at ops d) [0..<nx] tmp) (\<lambda>tmp'.
     ebind (abs_diff tmp' d) (\<lambda>ds.
     ebind (np_max ds) (\<lambda>residual.
       Inr (tmp', residual))))"

text \<open>\<open>Impurity.evolve\<close>: the state after the step and the returned residual.\<close>

definition evolve :: "impurity \<Rightarrow> error + impurity \<times> real" where
  "evolve self =
     ebind (evolve_field (num_x (run self)) (op_mat self) (dens self) (tmp_dens self)) (\<lambda>r1.
     ebind (evolve_field (num_x (run self)) (op_mat_max self) (dens_max self) (fst r1)) (\<lambda>r2.
       Inr (self\<lparr>dens := fst r1, dens_max := fst r2, tmp_dens := fst r2\<rparr>,
            max (snd r1) (snd r2))))"

section \<open>A small instance\<close>

text \<open>
  Two states (a neutral and an ion), one cell, unit normalisations. The inverse is the
  closed form for two-by-two matrices; the interpolant of the radiative recombination
  is negative at the cell's temperature.
\<close>

fun inv2 :: "mat \<Rightarrow> mat option" where
  "inv2 [[a, b], [c, d]] =
     (if a * d - b * c = 0 then None
      else Some [[d / (a * d - b * c), - b / (a * d - b * c)],
                 [- c / (a * d - b * c), a / (a * d - b * c)]])"
| "inv2 _ = None"

definition ex_state0 :: state where
  "ex_state0 = \<lparr>iz = 0, statename = ''1s'', loc = 0, statw = 2, energy = 0\<rparr>"

definition ex_state1 :: state where
  "ex_state1 = \<lparr>iz = 1, statename = ''ion'', loc = 1, statw = 1, energy = 27 / 2\<rparr>"

definition ex_run :: skrun where
  "ex_run = \<lparr>num_x = 1, num_v = 1, vgrid = [1], dvc = [1], v_th = 1, T_norm = 1, n_norm = 1,
             t_norm = 1, sigma_0 = 1, DENSITY = [1], TEMPERATURE = [1], DIST_F0 = [[1]]\<rparr>"

definition ex_input :: input_cfg where
  "ex_input = \<lparr>GS_ONLY_RADREC = False, COLL_ION_REC = True, RAD_REC = True, COLL_EX_DEEX = True,
               SPONT_EM = True, DELTA_T = 1 / 2, FRAC_IMP_DENS = 3\<rparr>"

definition ex_py_int :: "string \<Rightarrow> int option" where
  "ex_py_int s = (if s = ''0'' then Some 0 else if s = ''1'' then Some 1 else None)"

definition ex_mk_transition ::
  "string \<Rightarrow> string \<Rightarrow> skrun \<Rightarrow> state \<Rightarrow> state \<Rightarrow> string \<Rightarrow> transition" where
  "ex_mk_transition k nm rn fs ts dt =
     \<lparr>trans_kind = k, from_state = fs, to_state = ts, from_loc = loc fs, to_loc = loc ts,
      sigma = [1], thresh = energy ts - energy fs, radrec_interp = (\<lambda>T. T - 2), spontem_rate = 0\<rparr>"

definition ex_mk_spontem :: "string \<Rightarrow> skrun \<Rightarrow> state \<Rightarrow> state \<Rightarrow> real \<Rightarrow> transition" where
  "ex_mk_spontem nm rn fs ts r =
     \<lparr>trans_kind = ''spontem'', from_state = fs, to_state = ts, from_loc = loc fs, to_loc = loc ts,
      sigma = [], thresh = 0, radrec_interp = (\<lambda>T. 0), spontem_rate = r\<rparr>"

definition ex_env :: env where
  "ex_env = \<lparr>inp = ex_input, py_int = ex_py_int, mk_transition = ex_mk_transition,
             mk_spontem = ex_mk_spontem,
             ion_rate = (\<lambda>f vg dv sg. 1), tbrec_rate = (\<lambda>f T vg dv eps w sg. 0),
             ex_rate = (\<lambda>f vg dv sg. 1), deex_rate = (\<lambda>f vg dv eps w sg. 1),
             maxwellian = (\<lambda>T n vg. map (\<lambda>v. n) vg),
             planck_h = 1, el_mass = 1, el_charge = 1, np_inv = inv2\<rparr>"

definition ex_imp :: impurity where
  "ex_imp = \<lparr>longname = ''Carbon'', num_z = 2, run = ex_run, states = [ex_state0, ex_state1],
             tot_states = 2, iz_transitions = [], ex_transitions = [], radrec_transitions = [],
             spontem_transitions = [], dens = [[3, 0]], dens_max = [[3, 0]], tmp_dens = [[0, 0]],
             op_mat = [], rate_mat = [], op_mat_max = [], rate_mat_max = []\<rparr>"

definition ex_lines :: "string list list" where
  "ex_lines = [[''ionization'', ''0'', ''1s'', ''1'', ''ion'', ''SunoKato''],
               [''ionization'', ''0'', ''2p'', ''1'', ''ion''],
               [''radrec'', ''1'', ''ion'', ''0'', ''1s'', ''Badnell'']]"

definition ex_loaded :: impurity where
  "ex_loaded = ex_imp\<lparr>iz_transitions := [ex_mk_transition ''ionization'' ''Carbon'' ex_run ex_state0 ex_state1 ''SunoKato''],
      radrec_transitions := [ex_mk_transition ''radrec'' ''Carbon'' ex_run ex_state1 ex_state0 ''Badnell'']\<rparr>"



definition ex_built :: impurity where
  "ex_built = ex_loaded\<lparr>op_mat := [[[2 / 3, 0], [1 / 3, 1]]], rate_mat := [[[- 1, 0], [1, 0]]],
      op_mat_max := [[[2 / 3, 0], [1 / 3, 1]]], rate_mat_max := [[[- 1, 0], [1, 0]]]\<rparr>"


section \<open>Which lines of the catalog are kept\<close>

text \<open>
  The two states a line names, when both of its stage fields are integers and both
  lookups succeed.
\<close>

definition resolved :: "env \<Rightarrow> impurity \<Rightarrow> string list \<Rightarrow> (state \<times> state) option" where
  "resolved e self l =
     (case (py_int e (l ! 1), py_int e (l ! 3)) of
        (Some a, Some b) \<Rightarrow>
          (case (get_state self a (l ! 2), get_state self b (l ! 4)) of
             (Some fs, Some ts) \<Rightarrow> Some (fs, ts)
           | _ \<Rightarrow> None)
      | _ \<Rightarrow> None)"

text \<open>
  What a line contributes to the list of one kind: one transition when both states are
  found, the line is of that kind and the kind is enabled; nothing otherwise.
\<close>

definition retained :: "env \<Rightarrow> impurity \<Rightarrow> string \<Rightarrow> bool \<Rightarrow> string list \<Rightarrow> transition list" where
  "retained e self kind enabled l =
     (case resolved e self l of
        Some (fs, ts) \<Rightarrow>
          (if l ! 0 = kind \<and> enabled
           then [mk_transition e kind (longname self) (run self) fs ts (strip_nl (l ! 5))]
           else [])
      | None \<Rightarrow> [])"

text \<open>
  A line the loop body can read: five leading fields with integer stages, and a sixth
  field (the data type) where both states are found.
\<close>

definition parses :: "env \<Rightarrow> impurity \<Rightarrow> string list \<Rightarrow> bool" where
  "parses e self l \<longleftrightarrow>
     5 \<le> length l \<and> py_int e (l ! 1) \<noteq> None \<and> py_int e (l ! 3) \<noteq> None \<and>
     (resolved e self l = None \<or> 6 \<le> length l)"


definition add_retained :: "env \<Rightarrow> impurity \<Rightarrow> string list \<Rightarrow> impurity" where
  "add_retained e self l =
     self\<lparr>iz_transitions := iz_transitions self @
              retained e self ''ionization'' (COLL_ION_REC (inp e)) l,
           radrec_transitions := radrec_transitions self @
              retained e self ''radrec'' (RAD_REC (inp e)) l,
           ex_transitions := ex_transitions self @
              retained e self ''excitation'' (COLL_EX_DEEX (inp e)) l\<rparr>"

lemma load_line_retained:
  assumes "parses e self l"
  shows "load_line e self l = Inr (add_retained e self l)"
  using assms
  by (auto simp: parses_def load_line_def ebind_def nth_err_def int_err_def resolved_def
      retained_def add_retained_def Let_def split: option.splits)

lemma resolved_cong: "states s = states self \<Longrightarrow> resolved e s l = resolved e self l"
  unfolding resolved_def get_state_def by presburger

lemma retained_cong:
  "states s = states self \<Longrightarrow> longname s = longname self \<Longrightarrow> run s = run self \<Longrightarrow>
   retained e s k b l = retained e self k b l"
  unfolding retained_def by (simp only: resolved_cong [of s self])

lemma parses_cong: "states s = states self \<Longrightarrow> parses e s l = parses e self l"
  unfolding parses_def by (simp only: resolved_cong [of s self])

lemma add_retained_frame:
  "states (add_retained e s l) = states s"
  "longname (add_retained e s l) = longname s"
  "run (add_retained e s l) = run s"
  by (simp_all add: add_retained_def)

lemma add_retained_lists:
  "iz_transitions (add_retained e s l) =
     iz_transitions s @ retained e s ''ionization'' (COLL_ION_REC (inp e)) l"
  "radrec_transitions (add_retained e s l) =
     radrec_transitions s @ retained e s ''radrec'' (RAD_REC (inp e)) l"
  "ex_transitions (add_retained e s l) =
     ex_transitions s @ retained e s ''excitation'' (COLL_EX_DEEX (inp e)) l"
  by (simp_all add: add_retained_def)

lemma load_lines_fold:
  "\<forall>l\<in>set lines. parses e self l \<Longrightarrow>
   load_lines e self lines = Inr (fold (\<lambda>l s. add_retained e s l) lines self)"
proof (induction lines arbitrary: self)
  case Nil
  then show ?case by simp
next
  case (Cons l ls)
  have 1: "load_line e self l = Inr (add_retained e self l)"
    using Cons.prems by (simp add: load_line_retained)
  have "\<forall>x\<in>set ls. parses e (add_retained e self l) x"
    using Cons.prems by (simp add: parses_cong [OF add_retained_frame(1)])
  then have 2: "load_lines e (add_retained e self l) ls =
      Inr (fold (\<lambda>l s. add_retained e s l) ls (add_retained e self l))"
    by (rule Cons.IH)
  show ?case by (simp add: 1 2 ebind_def)
qed

lemma fold_add_retained:
  "states s = states self \<Longrightarrow> longname s = longname self \<Longrightarrow> run s = run self \<Longrightarrow>
   iz_transitions (fold (\<lambda>l s. add_retained e s l) lines s) =
     iz_transitions s @ concat (map (retained e self ''ionization'' (COLL_ION_REC (inp e))) lines) \<and>
   radrec_transitions (fold (\<lambda>l s. add_retained e s l) lines s) =
     radrec_transitions s @ concat (map (retained e self ''radrec'' (RAD_REC (inp e))) lines) \<and>
   ex_transitions (fold (\<lambda>l s. add_retained e s l) lines s) =
     ex_transitions s @ concat (map (retained e self ''excitation'' (COLL_EX_DEEX (inp e))) lines)"
proof (induction lines arbitrary: s)
  case Nil
  then show ?case by simp
next
  case (Cons l ls)
  have "states (add_retained e s l) = states self" "longname (add_retained e s l) = longname self"
    "run (add_retained e s l) = run self"
    using Cons.prems by (simp_all add: add_retained_frame)
  from Cons.IH [OF this] show ?case
    by (simp add: add_retained_lists retained_cong [OF Cons.prems])
qed

lemma spontem_pair_keeps:
  "iz_transitions (spontem_pair e d z fs s ts) = iz_transitions s"
  "radrec_transitions (spontem_pair e d z fs s ts) = radrec_transitions s"
  "ex_transitions (spontem_pair e d z fs s ts) = ex_transitions s"
  by (simp_all add: spontem_pair_def Let_def)

lemma fold_keeps:
  assumes "\<And>x s. P (f x s) = P s"
  shows "P (fold f xs s) = P s"
  by (induction xs arbitrary: s) (simp_all add: assms)

lemma load_spontem_keeps:
  "iz_transitions (load_spontem_transitions e d s) = iz_transitions s"
  "radrec_transitions (load_spontem_transitions e d s) = radrec_transitions s"
  "ex_transitions (load_spontem_transitions e d s) = ex_transitions s"
  unfolding load_spontem_transitions_def
  by (intro fold_keeps; simp add: spontem_pair_keeps)+

text \<open>
  Claim C9. When the transitions are loaded, a line of the catalog is retained only if
  both its origin and its target state are found in the state table and the switch of
  its kind is on; a line whose origin or target is not found is dropped, no error is
  raised and loading goes on. Here: on a catalog whose lines have their five leading
  fields (and a sixth where both states are found), \<open>load_transitions\<close> returns
  normally, and each of the three lists holds exactly the transitions of the lines
  that \<open>retained\<close> keeps, in the order of the file.
\<close>

theorem load_transitions_retains_resolved:
  assumes "\<forall>l\<in>set lines. parses e self l"
  shows "\<exists>s. load_transitions e lines spontem_data self = Inr s \<and>
    iz_transitions s = concat (map (retained e self ''ionization'' (COLL_ION_REC (inp e))) lines) \<and>
    radrec_transitions s = concat (map (retained e self ''radrec'' (RAD_REC (inp e))) lines) \<and>
    ex_transitions s = concat (map (retained e self ''excitation'' (COLL_EX_DEEX (inp e))) lines)"
proof -
  define s0 where "s0 = self\<lparr>iz_transitions := [], ex_transitions := [],
                    radrec_transitions := [], spontem_transitions := []\<rparr>"
  have fr: "states s0 = states self" "longname s0 = longname self" "run s0 = run self"
    and em: "iz_transitions s0 = []" "radrec_transitions s0 = []" "ex_transitions s0 = []"
    by (simp_all add: s0_def)
  have "\<forall>l\<in>set lines. parses e s0 l"
    using assms by (simp add: parses_cong [OF fr(1)])
  then have 1: "load_lines e s0 lines = Inr (fold (\<lambda>l s. add_retained e s l) lines s0)"
    by (rule load_lines_fold)
  have 2: "load_transitions e lines spontem_data self =
      Inr (if SPONT_EM (inp e)
           then load_spontem_transitions e spontem_data (fold (\<lambda>l s. add_retained e s l) lines s0)
           else fold (\<lambda>l s. add_retained e s l) lines s0)"
    unfolding load_transitions_def s0_def [symmetric] by (simp add: 1 ebind_def)
  show ?thesis
    unfolding 2 using fold_add_retained [OF fr, of e lines]
    by (simp add: em load_spontem_keeps)
qed


lemma ex_parses: "\<forall>l\<in>set ex_lines. parses ex_env ex_imp l"
  by (simp add: parses_def ex_lines_def ex_env_def ex_py_int_def resolved_def get_state_def
      ex_imp_def ex_state0_def ex_state1_def)

theorem load_transitions_retains_resolved_witness:
  "\<exists>s. load_transitions ex_env ex_lines [] ex_imp = Inr s \<and>
     iz_transitions s =
       [ex_mk_transition ''ionization'' ''Carbon'' ex_run ex_state0 ex_state1 ''SunoKato''] \<and>
     radrec_transitions s =
       [ex_mk_transition ''radrec'' ''Carbon'' ex_run ex_state1 ex_state0 ''Badnell''] \<and>
     ex_transitions s = []"
  using load_transitions_retains_resolved [OF ex_parses, of "[]"]
  by (simp add: retained_def resolved_def ex_lines_def ex_env_def ex_py_int_def get_state_def
      ex_imp_def ex_state0_def ex_state1_def ex_input_def strip_nl_def)

section \<open>Column sums\<close>

text \<open>The sum of column \<open>j\<close> of a matrix.\<close>

definition col_sum :: "mat \<Rightarrow> nat \<Rightarrow> real" where
  "col_sum M j = sum_list (map (\<lambda>row. row ! j) M)"

lemma ebind_Inr_iff: "ebind m f = Inr y \<longleftrightarrow> (\<exists>x. m = Inr x \<and> f x = Inr y)"
  by (cases m) (simp_all add: ebind_def)

lemma sum_list_map_update:
  "r < length xs \<Longrightarrow> sum_list (map f (xs[r := x])) = sum_list (map f xs) - f (xs ! r) + (f x :: real)"
proof (induction xs arbitrary: r)
  case Nil
  then show ?case by simp
next
  case (Cons a xs)
  then show ?case by (cases r) simp_all
qed

lemma add_at_col_sum:
  assumes "add_at M r c v = Inr M'"
  shows "col_sum M' j = col_sum M j + (if j = c then v else 0)"
proof -
  from assms have r: "r < length M" and c: "c < length (M ! r)"
    and M': "M' = M[r := (M ! r)[c := M ! r ! c + v]]"
    by (auto simp: add_at_def split: if_splits)
  show ?thesis
    unfolding col_sum_def M' using r c
    by (simp add: sum_list_map_update nth_list_update)
qed

lemma add_loss_gain_col_sum:
  assumes "add_loss_gain MM a b K Kx = Inr MM'"
  shows "col_sum (fst MM') j = col_sum (fst MM) j" "col_sum (snd MM') j = col_sum (snd MM) j"
proof -
  from assms obtain M1 X1 M2 X2 where
    1: "add_at (fst MM) a a (- K) = Inr M1" and 2: "add_at (snd MM) a a (- Kx) = Inr X1" and
    3: "add_at M1 b a K = Inr M2" and 4: "add_at X1 b a Kx = Inr X2" and 5: "MM' = (M2, X2)"
    unfolding add_loss_gain_def ebind_Inr_iff by auto
  show "col_sum (fst MM') j = col_sum (fst MM) j"
    by (simp add: 5 add_at_col_sum [OF 3] add_at_col_sum [OF 1])
  show "col_sum (snd MM') j = col_sum (snd MM) j"
    by (simp add: 5 add_at_col_sum [OF 4] add_at_col_sum [OF 2])
qed

lemma add_at_shape: "add_at M r c v = Inr M' \<Longrightarrow> map length M' = map length M"
  by (auto simp: add_at_def map_update list_update_same_conv split: if_splits)

lemma add_loss_gain_shape:
  assumes "add_loss_gain MM a b K Kx = Inr MM'"
  shows "map length (fst MM') = map length (fst MM)" "map length (snd MM') = map length (snd MM)"
proof -
  from assms obtain M1 X1 M2 X2 where
    1: "add_at (fst MM) a a (- K) = Inr M1" and 2: "add_at (snd MM) a a (- Kx) = Inr X1" and
    3: "add_at M1 b a K = Inr M2" and 4: "add_at X1 b a Kx = Inr X2" and 5: "MM' = (M2, X2)"
    unfolding add_loss_gain_def ebind_Inr_iff by auto
  show "map length (fst MM') = map length (fst MM)"
    by (simp add: 5 add_at_shape [OF 3] add_at_shape [OF 1])
  show "map length (snd MM') = map length (snd MM)"
    by (simp add: 5 add_at_shape [OF 4] add_at_shape [OF 2])
qed

text \<open>Two pairs of matrices with the same shapes and the same column sums.\<close>

definition same_col_sums :: "mat \<times> mat \<Rightarrow> mat \<times> mat \<Rightarrow> bool" where
  "same_col_sums A B \<longleftrightarrow> (\<lambda>j. col_sum (fst A) j) = (\<lambda>j. col_sum (fst B) j) \<and>
                          (\<lambda>j. col_sum (snd A) j) = (\<lambda>j. col_sum (snd B) j) \<and>
                          map length (fst A) = map length (fst B) \<and>
                          map length (snd A) = map length (snd B)"

lemma add_loss_gain_same: "add_loss_gain MM a b K Kx = Inr MM' \<Longrightarrow> same_col_sums MM' MM"
  unfolding same_col_sums_def
  by (intro conjI ext) (simp_all add: add_loss_gain_col_sum add_loss_gain_shape)

lemma same_col_sums_trans: "same_col_sums A B \<Longrightarrow> same_col_sums B C \<Longrightarrow> same_col_sums A C"
  by (simp add: same_col_sums_def)

lemma same_col_sums_refl: "same_col_sums A A"
  by (simp add: same_col_sums_def)

lemma efold_same:
  assumes "\<And>x s s'. f x s = Inr s' \<Longrightarrow> same_col_sums s' s"
  shows "efold f xs s = Inr s' \<Longrightarrow> same_col_sums s' s"
proof (induction xs arbitrary: s)
  case Nil
  then show ?case by (simp add: same_col_sums_refl)
next
  case (Cons x xs)
  from Cons.prems obtain s1 where 1: "f x s = Inr s1" and 2: "efold f xs s1 = Inr s'"
    by (auto simp: ebind_Inr_iff)
  show ?case
    using Cons.IH [OF 2] assms [OF 1] by (rule same_col_sums_trans)
qed

lemma ion_step_same: "ion_step e rn f0 f0m i tr MM = Inr MM' \<Longrightarrow> same_col_sums MM' MM"
  unfolding ion_step_def ebind_Inr_iff Let_def
  by (blast intro: add_loss_gain_same same_col_sums_trans)

lemma radrec_step_same: "radrec_step rn i tr MM = Inr MM' \<Longrightarrow> same_col_sums MM' MM"
  unfolding radrec_step_def ebind_Inr_iff
  by (blast intro: add_loss_gain_same)

lemma ex_step_same: "ex_step e rn f0 f0m i tr MM = Inr MM' \<Longrightarrow> same_col_sums MM' MM"
  unfolding ex_step_def ebind_Inr_iff Let_def
  by (blast intro: add_loss_gain_same same_col_sums_trans)

lemma spontem_step_same: "spontem_step tr MM = Inr MM' \<Longrightarrow> same_col_sums MM' MM"
  unfolding spontem_step_def by (rule add_loss_gain_same)

lemma cell_rates_same:
  assumes "cell_rates e self f0 f0m i = Inr MM"
  shows "same_col_sums MM (zeros (tot_states self) (tot_states self), zeros (tot_states self) (tot_states self))"
proof -
  let ?Z = "(zeros (tot_states self) (tot_states self), zeros (tot_states self) (tot_states self))"
  from assms obtain MM1 MM2 MM3 where
    1: "(if COLL_ION_REC (inp e)
         then efold (ion_step e (run self) f0 f0m i) (iz_transitions self) ?Z else Inr ?Z) = Inr MM1" and
    2: "(if RAD_REC (inp e)
         then efold (radrec_step (run self) i) (radrec_transitions self) MM1 else Inr MM1) = Inr MM2" and
    3: "(if COLL_EX_DEEX (inp e)
         then efold (ex_step e (run self) f0 f0m i) (ex_transitions self) MM2 else Inr MM2) = Inr MM3" and
    4: "(if SPONT_EM (inp e)
         then efold spontem_step (spontem_transitions self) MM3 else Inr MM3) = Inr MM"
    unfolding cell_rates_def Let_def ebind_Inr_iff by blast
  have a: "same_col_sums MM1 ?Z"
    using 1 by (auto split: if_splits intro: efold_same ion_step_same same_col_sums_refl)
  have b: "same_col_sums MM2 MM1"
    using 2 by (auto split: if_splits intro: efold_same radrec_step_same same_col_sums_refl)
  have c: "same_col_sums MM3 MM2"
    using 3 by (auto split: if_splits intro: efold_same ex_step_same same_col_sums_refl)
  have d: "same_col_sums MM MM3"
    using 4 by (auto split: if_splits intro: efold_same spontem_step_same same_col_sums_refl)
  from d c b a show ?thesis by (blast intro: same_col_sums_trans)
qed

lemma col_sum_zeros: "j < n \<Longrightarrow> col_sum (zeros m n) j = 0"
  by (simp add: col_sum_def zeros_def sum_list_replicate)

lemma emap_nth:
  "emap f xs = Inr ys \<Longrightarrow> length ys = length xs \<and> (\<forall>k<length xs. f (xs ! k) = Inr (ys ! k))"
proof (induction xs arbitrary: ys)
  case Nil
  then show ?case by simp
next
  case (Cons x xs)
  from Cons.prems obtain y ys' where 1: "f x = Inr y" and 2: "emap f xs = Inr ys'" and 3: "ys = y # ys'"
    by (auto simp: ebind_Inr_iff)
  from Cons.IH [OF 2] show ?case
    by (auto simp: 1 3 nth_Cons split: nat.splits)
qed

lemma build_cells:
  assumes "build_rate_matrices e self = Inr s" and "i < num_x (run self)"
  shows "\<exists>f0 f0m. cell_rates e self f0 f0m i = Inr (rate_mat s ! i, rate_mat_max s ! i) \<and>
     inv_err e (be_operator (DELTA_T (inp e)) (tot_states self) (rate_mat s ! i)) = Inr (op_mat s ! i) \<and>
     inv_err e (be_operator (DELTA_T (inp e)) (tot_states self) (rate_mat_max s ! i)) = Inr (op_mat_max s ! i)"
proof -
  from assms(1) obtain f0m cells where
    c: "emap (build_cell e self (transpose (DIST_F0 (run self))) f0m) [0..<num_x (run self)] = Inr cells"
    and s: "s = self\<lparr>op_mat := map (fst \<circ> snd) cells, rate_mat := map (fst \<circ> fst) cells,
                  op_mat_max := map (snd \<circ> snd) cells, rate_mat_max := map (snd \<circ> fst) cells\<rparr>"
    unfolding build_rate_matrices_def Let_def ebind_Inr_iff by auto
  from emap_nth [OF c] assms(2) have
    len: "i < length cells" and
    bc: "build_cell e self (transpose (DIST_F0 (run self))) f0m i = Inr (cells ! i)"
    by auto
  from bc obtain MM op opm where
    1: "cell_rates e self (transpose (DIST_F0 (run self))) f0m i = Inr MM" and
    2: "inv_err e (be_operator (DELTA_T (inp e)) (tot_states self) (fst MM)) = Inr op" and
    3: "inv_err e (be_operator (DELTA_T (inp e)) (tot_states self) (snd MM)) = Inr opm" and
    4: "cells ! i = (MM, (op, opm))"
    unfolding build_cell_def ebind_Inr_iff by auto
  have "rate_mat s ! i = fst MM" "rate_mat_max s ! i = snd MM" "op_mat s ! i = op" "op_mat_max s ! i = opm"
    using len by (simp_all add: s 4)
  with 1 2 3 show ?thesis by auto
qed

text \<open>
  Claim C3. In every cell, every column of the rate matrix that the builder produces
  sums to zero, for the kinetic and for the Maxwellian matrix: each transition adds a
  loss on the diagonal and the same amount as a gain in the same column. This is the
  state of the matrices before the solver overwrites a row.
\<close>

theorem build_rate_matrices_columns_sum_to_zero:
  assumes "build_rate_matrices e self = Inr s" and "i < num_x (run self)" and "j < tot_states self"
  shows "col_sum (rate_mat s ! i) j = 0 \<and> col_sum (rate_mat_max s ! i) j = 0"
proof -
  from build_cells [OF assms(1,2)] obtain f0 f0m where
    "cell_rates e self f0 f0m i = Inr (rate_mat s ! i, rate_mat_max s ! i)"
    by blast
  from cell_rates_same [OF this] show ?thesis
    using assms(3) by (simp add: same_col_sums_def fun_eq_iff col_sum_zeros)
qed


lemma ex_load: "load_transitions ex_env ex_lines [] ex_imp = Inr ex_loaded"
  by (simp add: load_transitions_def ex_lines_def ex_env_def ex_py_int_def get_state_def ex_imp_def ex_state0_def ex_state1_def
   load_line_def ebind_def nth_err_def int_err_def strip_nl_def ex_loaded_def ex_input_def load_spontem_transitions_def spontem_pair_def
   matched_rates_def numeral_2_eq_2)



lemma ex_build: "build_rate_matrices ex_env ex_loaded = Inr ex_built"
  by (simp add: build_rate_matrices_def ex_loaded_def ex_imp_def ex_run_def ex_env_def ex_input_def
      get_maxwellians_def ebind_def nth_err_def build_cell_def cell_rates_def ion_step_def radrec_step_def
      alpha_radrec_def ex_mk_transition_def ex_state0_def ex_state1_def scaled_def collrate_const_def
      add_loss_gain_def add_at_def zeros_def py_truediv_def inv_err_def be_operator_def identity_def
      ex_built_def numeral_2_eq_2)


theorem build_rate_matrices_columns_sum_to_zero_witness:
  "col_sum (rate_mat ex_built ! 0) 0 = 0 \<and> col_sum (rate_mat_max ex_built ! 0) 0 = 0"
  by (rule build_rate_matrices_columns_sum_to_zero [OF ex_build])
    (simp_all add: ex_loaded_def ex_imp_def ex_run_def)

section \<open>Exact linear algebra\<close>

text \<open>
  The contract of \<open>np.linalg.inv\<close> in exact arithmetic: it answers only on square
  matrices, with a matrix of the same shape, and applying the answer and then the
  matrix gives every vector back.
\<close>

definition exact_inverse :: "(mat \<Rightarrow> mat option) \<Rightarrow> bool" where
  "exact_inverse f \<longleftrightarrow>
     (\<forall>M Mi. f M = Some Mi \<longrightarrow>
        list_all (\<lambda>row. length row = length M) M \<and>
        length Mi = length M \<and>
        list_all (\<lambda>row. length row = length M) Mi \<and>
        (\<forall>v. length v = length M \<longrightarrow> mat_vec M (mat_vec Mi v) = v))"

lemma dot_sum: "length xs = length ys \<Longrightarrow> dot xs ys = (\<Sum>j = 0..<length ys. xs ! j * ys ! j)"
  unfolding dot_def by (simp add: sum_list_sum_nth atLeast0LessThan)

lemma dot_ones: "length v = n \<Longrightarrow> dot (replicate n 1) v = sum_list v"
  by (simp add: dot_sum sum_list_sum_nth)

lemma col_sum_nth: "col_sum M j = (\<Sum>i = 0..<length M. M ! i ! j)"
  unfolding col_sum_def by (simp add: sum_list_sum_nth)

lemma sum_mat_vec:
  assumes "list_all (\<lambda>row. length row = length v) M"
  shows "sum_list (mat_vec M v) = (\<Sum>j = 0..<length v. col_sum M j * v ! j)"
proof -
  have rows: "\<And>i. i < length M \<Longrightarrow> length (M ! i) = length v"
    using assms by (simp add: list_all_length)
  have "sum_list (mat_vec M v) = (\<Sum>i = 0..<length M. dot (M ! i) v)"
    by (simp add: mat_vec_def sum_list_sum_nth)
  also have "\<dots> = (\<Sum>i = 0..<length M. \<Sum>j = 0..<length v. M ! i ! j * v ! j)"
    by (rule sum.cong) (simp_all add: dot_sum rows)
  also have "\<dots> = (\<Sum>j = 0..<length v. \<Sum>i = 0..<length M. M ! i ! j * v ! j)"
    by (rule sum.swap)
  also have "\<dots> = (\<Sum>j = 0..<length v. col_sum M j * v ! j)"
    by (simp add: col_sum_nth sum_distrib_right)
  finally show ?thesis .
qed

lemma be_operator_col_sum:
  assumes "length R = n" and "list_all (\<lambda>row. length row = n) R" and "j < n"
  shows "col_sum (be_operator dt n R) j = 1 - dt * col_sum R j"
proof -
  have rows: "\<And>i. i < n \<Longrightarrow> length (R ! i) = n"
    using assms by (simp add: list_all_length)
  have len: "length (be_operator dt n R) = n"
    by (simp add: be_operator_def identity_def assms(1))
  have ent: "be_operator dt n R ! i ! j = (if i = j then 1 else 0) - dt * R ! i ! j" if "i < n" for i
    using that assms(1,3) rows [OF that] by (simp add: be_operator_def identity_def)
  have "col_sum (be_operator dt n R) j = (\<Sum>i = 0..<n. (if i = j then 1 else 0) - dt * R ! i ! j)"
    unfolding col_sum_nth len by (rule sum.cong) (simp_all add: ent)
  also have "\<dots> = 1 - dt * col_sum R j"
    using assms(3) by (simp add: sum_subtractf col_sum_nth assms(1) sum_distrib_left)
  finally show ?thesis .
qed

lemma be_operator_shape:
  assumes "length R = n" and "list_all (\<lambda>row. length row = n) R"
  shows "length (be_operator dt n R) = n" "list_all (\<lambda>row. length row = n) (be_operator dt n R)"
  using assms by (simp_all add: be_operator_def identity_def list_all_length)

lemma inverse_sum:
  assumes ex: "exact_inverse f" and inv: "f B = Some Mi" and n: "length B = n" and v: "length v = n"
  shows "sum_list v = (\<Sum>j = 0..<n. col_sum B j * mat_vec Mi v ! j)" "length (mat_vec Mi v) = n"
proof -
  from ex inv have all: "list_all (\<lambda>row. length row = length B) B \<and> length Mi = length B \<and>
      list_all (\<lambda>row. length row = length B) Mi \<and>
      (\<forall>v. length v = length B \<longrightarrow> mat_vec B (mat_vec Mi v) = v)"
    unfolding exact_inverse_def by blast
  then have sq: "list_all (\<lambda>row. length row = n) B" and lm: "length Mi = n"
    and inv_v: "mat_vec B (mat_vec Mi v) = v"
    using v n by simp_all
  define w where "w = mat_vec Mi v"
  have lw: "length w = n" by (simp add: w_def mat_vec_def lm)
  then show "length (mat_vec Mi v) = n" by (simp add: w_def)
  have "sum_list v = sum_list (mat_vec B w)" by (simp only: inv_v w_def)
  also have "\<dots> = (\<Sum>j = 0..<n. col_sum B j * w ! j)"
    using sum_mat_vec [of w B] sq by (simp add: lw)
  finally show "sum_list v = (\<Sum>j = 0..<n. col_sum B j * mat_vec Mi v ! j)"
    by (simp add: w_def)
qed

text \<open>An exactly inverted matrix whose columns sum to one conserves the sum.\<close>

lemma inverse_conserves:
  assumes ex: "exact_inverse f" and inv: "f B = Some Mi" and n: "length B = n"
    and cs: "\<And>j. j < n \<Longrightarrow> col_sum B j = 1" and v: "length v = n"
  shows "sum_list (mat_vec Mi v) = sum_list v"
proof -
  have "sum_list v = (\<Sum>j = 0..<n. col_sum B j * mat_vec Mi v ! j)"
    by (rule inverse_sum [OF ex inv n v])
  also have "\<dots> = (\<Sum>j = 0..<n. mat_vec Mi v ! j)"
    by (rule sum.cong) (simp_all add: cs)
  also have "\<dots> = sum_list (mat_vec Mi v)"
    using inverse_sum(2) [OF ex inv n v] by (simp add: sum_list_sum_nth)
  finally show ?thesis by simp
qed

text \<open>An exactly inverted matrix cannot have all its column sums zero.\<close>

lemma inverse_not_all_zero:
  assumes ex: "exact_inverse f" and inv: "f M = Some Mi" and n: "length M = n" and pos: "0 < n"
  shows "\<exists>j<n. col_sum M j \<noteq> 0"
proof (rule ccontr)
  assume "\<not> (\<exists>j<n. col_sum M j \<noteq> 0)"
  then have cs: "\<And>j. j < n \<Longrightarrow> col_sum M j = 0" by blast
  define v where "v = (replicate n (0::real))[n - 1 := 1]"
  have lv: "length v = n" by (simp add: v_def)
  have "sum_list v = (\<Sum>j = 0..<n. col_sum M j * mat_vec Mi v ! j)"
    by (rule inverse_sum [OF ex inv n lv])
  also have "\<dots> = 0"
    by (rule sum.neutral) (simp add: cs)
  finally have "sum_list v = 0" .
  moreover have "sum_list v = 1"
    using pos sum_list_map_update [of "n - 1" "replicate n 0" "\<lambda>x. x" 1]
    by (simp add: v_def sum_list_replicate)
  ultimately show False by simp
qed


section \<open>The direct solve, cell by cell\<close>

lemma efold_append: "efold f (xs @ ys) s = ebind (efold f xs s) (efold f ys)"
proof (induction xs arbitrary: s)
  case Nil
  then show ?case by (simp add: ebind_def)
next
  case (Cons x xs)
  then show ?case by (cases "f x s") (simp_all add: ebind_def)
qed

lemma efold_upt_Suc:
  "efold f [0..<Suc k] s = Inr s' \<longleftrightarrow> (\<exists>s1. efold f [0..<k] s = Inr s1 \<and> f k s1 = Inr s')"
  by (simp add: efold_append ebind_Inr_iff)

lemma solve_at_Inr:
  "solve_at e n k S = Inr S' \<longleftrightarrow>
     k < length (fst S) \<and> k < length (snd S) \<and>
     (\<exists>r. solve_cell e n (fst S ! k) (snd S ! k) = Inr r \<and>
          S' = ((fst S)[k := fst r], (snd S)[k := snd r]))"
  by (auto simp: solve_at_def ebind_Inr_iff nth_err_def)

lemma solve_field_cells:
  "efold (solve_at e n) [0..<k] S = Inr S' \<Longrightarrow>
     length (fst S') = length (fst S) \<and> length (snd S') = length (snd S) \<and>
     k \<le> length (fst S) \<and> k \<le> length (snd S) \<and>
     (\<forall>i<k. solve_cell e n (fst S ! i) (snd S ! i) = Inr (fst S' ! i, snd S' ! i)) \<and>
     (\<forall>i\<ge>k. fst S' ! i = fst S ! i \<and> snd S' ! i = snd S ! i)"
proof (induction k arbitrary: S')
  case 0
  then show ?case by simp
next
  case (Suc k)
  from Suc.prems obtain S1 where 1: "efold (solve_at e n) [0..<k] S = Inr S1"
    and 2: "solve_at e n k S1 = Inr S'"
    unfolding efold_upt_Suc by blast
  note ih = Suc.IH [OF 1]
  from 2 obtain r where k: "k < length (fst S1)" "k < length (snd S1)"
    and r: "solve_cell e n (fst S1 ! k) (snd S1 ! k) = Inr r"
    and S': "S' = ((fst S1)[k := fst r], (snd S1)[k := snd r])"
    unfolding solve_at_Inr by blast
  have same: "fst S1 ! k = fst S ! k" "snd S1 ! k = snd S ! k"
    using ih by simp_all
  show ?case
  proof (intro conjI allI impI)
    show "length (fst S') = length (fst S)" "length (snd S') = length (snd S)"
      using ih by (simp_all add: S')
    show "Suc k \<le> length (fst S)" "Suc k \<le> length (snd S)"
      using ih k by simp_all
  next
    fix i assume "i < Suc k"
    show "solve_cell e n (fst S ! i) (snd S ! i) = Inr (fst S' ! i, snd S' ! i)"
    proof (cases "i = k")
      case True
      then show ?thesis using r k by (simp add: S' same)
    next
      case False
      with \<open>i < Suc k\<close> have "i < k" by simp
      with ih have "solve_cell e n (fst S ! i) (snd S ! i) = Inr (fst S1 ! i, snd S1 ! i)"
        by blast
      then show ?thesis using False by (simp add: S')
    qed
  next
    fix i assume "Suc k \<le> i"
    then have "k \<le> i" "i \<noteq> k" by simp_all
    with ih have "fst S1 ! i = fst S ! i" "snd S1 ! i = snd S ! i" by simp_all
    then show "fst S' ! i = fst S ! i" "snd S' ! i = snd S ! i"
      using \<open>i \<noteq> k\<close> by (simp_all add: S')
  qed
qed

lemma solve_field_intro:
  assumes "k \<le> length Ms" "k \<le> length ds" "length Ms' = length Ms" "length ds' = length ds"
    and "\<forall>i<k. solve_cell e n (Ms ! i) (ds ! i) = Inr (Ms' ! i, ds' ! i)"
  shows "efold (solve_at e n) [0..<k] (Ms, ds) = Inr (take k Ms' @ drop k Ms, take k ds' @ drop k ds)"
  using assms
proof (induction k)
  case 0
  then show ?case by simp
next
  case (Suc k)
  then have ih: "efold (solve_at e n) [0..<k] (Ms, ds) = Inr (take k Ms' @ drop k Ms, take k ds' @ drop k ds)"
    by simp
  from Suc.prems have k: "k < length Ms" "k < length ds" "k < length Ms'" "k < length ds'"
    and cell: "solve_cell e n (Ms ! k) (ds ! k) = Inr (Ms' ! k, ds' ! k)"
    by simp_all
  have nthk: "(take k Ms' @ drop k Ms) ! k = Ms ! k" "(take k ds' @ drop k ds) ! k = ds ! k"
    using k by (simp_all add: nth_append)
  have upd: "(take k Ms' @ drop k Ms)[k := Ms' ! k] = take (Suc k) Ms' @ drop (Suc k) Ms"
    "(take k ds' @ drop k ds)[k := ds' ! k] = take (Suc k) ds' @ drop (Suc k) ds"
    using k by (simp_all add: list_update_append take_Suc_conv_app_nth Cons_nth_drop_Suc [symmetric])
  have "solve_at e n k (take k Ms' @ drop k Ms, take k ds' @ drop k ds) =
      Inr (take (Suc k) Ms' @ drop (Suc k) Ms, take (Suc k) ds' @ drop (Suc k) ds)"
    unfolding solve_at_Inr using k by (simp add: nthk cell upd)
  with ih show ?case
    unfolding efold_upt_Suc by blast
qed


lemma solve_cell_spec:
  assumes sc: "solve_cell e n R d = Inr (M, d')" and ex: "exact_inverse (np_inv e)"
    and d: "length d = n"
  shows "0 < n" and "length R = n" and "M = R[n - 1 := replicate n 1]"
    and "list_all (\<lambda>row. length row = n) M"
    and "\<exists>Mi. np_inv e M = Some Mi \<and> d' = mat_vec Mi ((replicate n 0)[n - 1 := sum_list d])"
    and "mat_vec M d' = (replicate n 0)[n - 1 := sum_list d]"
    and "length d' = n" and "sum_list d' = sum_list d"
proof -
  define rhs where "rhs = (replicate n (0::real))[n - 1 := sum_list d]"
  from sc obtain Mi x where
    1: "set_last_row_ones R = Inr M" and 2: "direct_rhs n (sum_list d) = Inr rhs" and
    3: "inv_err e M = Inr Mi" and 4: "np_dot Mi rhs = Inr x" and 5: "assign_row d x = Inr d'"
    unfolding solve_cell_def ebind_Inr_iff rhs_def
    by (auto simp: direct_rhs_def split: if_splits)
  from 1 have R: "R \<noteq> []" and M: "M = R[length R - 1 := map (\<lambda>_. 1) (R ! (length R - 1))]"
    by (auto simp: set_last_row_ones_def split: if_splits)
  from 2 show n: "0 < n" by (auto simp: direct_rhs_def split: if_splits)
  have lrhs: "length rhs = n" by (simp add: rhs_def)
  from 3 have inv: "np_inv e M = Some Mi"
    by (auto simp: inv_err_def split: option.splits)
  with ex have all: "list_all (\<lambda>row. length row = length M) M \<and> length Mi = length M \<and>
      list_all (\<lambda>row. length row = length M) Mi \<and>
      (\<forall>v. length v = length M \<longrightarrow> mat_vec M (mat_vec Mi v) = v)"
    unfolding exact_inverse_def by blast
  from 4 have rows: "list_all (\<lambda>row. length row = n) Mi" and x: "x = mat_vec Mi rhs"
    by (auto simp: np_dot_def lrhs split: if_splits)
  have lM: "length M = length R" by (simp add: M)
  have lMi: "0 < length Mi" using all R lM by simp
  have "length (Mi ! 0) = n" using rows lMi by (simp add: list_all_length)
  moreover have "length (Mi ! 0) = length M" using all lMi by (simp add: list_all_length)
  ultimately have Mn: "length M = n" by simp
  then show Rn: "length R = n" by (simp add: lM)
  show sq: "list_all (\<lambda>row. length row = n) M" using all Mn by simp
  have "length (M ! (n - 1)) = n" using sq Mn n by (simp add: list_all_length)
  moreover have "M ! (n - 1) = map (\<lambda>_. 1) (R ! (n - 1))" using Rn n by (simp add: M)
  ultimately have last: "map (\<lambda>_. 1::real) (R ! (n - 1)) = replicate n 1"
    by (simp add: map_replicate_const)
  show Meq: "M = R[n - 1 := replicate n 1]" using M Rn last by simp
  have lx: "length x = n" using all Mn by (simp add: x mat_vec_def)
  with 5 d have d': "d' = x" by (simp add: assign_row_def)
  show "\<exists>Mi. np_inv e M = Some Mi \<and> d' = mat_vec Mi ((replicate n 0)[n - 1 := sum_list d])"
    using inv d' x unfolding rhs_def by blast
  have sol: "mat_vec M d' = rhs" using all lrhs Mn by (simp add: d' x)
  then show "mat_vec M d' = (replicate n 0)[n - 1 := sum_list d]" by (simp only: rhs_def)
  show "length d' = n" by (simp add: d' lx)
  have "mat_vec M d' ! (n - 1) = dot (M ! (n - 1)) d'"
    using Mn n by (simp add: mat_vec_def)
  also have "M ! (n - 1) = replicate n 1" using Rn n by (simp add: Meq)
  also have "dot (replicate n 1) d' = sum_list d'" by (rule dot_ones) (simp add: d' lx)
  finally have "sum_list d' = rhs ! (n - 1)" by (simp add: sol)
  then show "sum_list d' = sum_list d" using n by (simp add: rhs_def)
qed


text \<open>
  The shape \<open>init_dens\<close> gives the three density arrays: one row per cell, one entry per
  state.
\<close>

definition dens_shaped :: "impurity \<Rightarrow> bool" where
  "dens_shaped self \<longleftrightarrow>
     length (dens self) = num_x (run self) \<and>
     list_all (\<lambda>row. length row = tot_states self) (dens self) \<and>
     length (dens_max self) = num_x (run self) \<and>
     list_all (\<lambda>row. length row = tot_states self) (dens_max self) \<and>
     length (tmp_dens self) = num_x (run self) \<and>
     list_all (\<lambda>row. length row = tot_states self) (tmp_dens self)"

lemma dens_shaped_rows:
  assumes "dens_shaped self" and "i < num_x (run self)"
  shows "length (dens self ! i) = tot_states self" "length (dens_max self ! i) = tot_states self"
    "length (tmp_dens self ! i) = tot_states self"
  using assms by (simp_all add: dens_shaped_def list_all_length)

lemma solve_Inr:
  "solve e self = Inr s' \<longleftrightarrow>
     (\<exists>S1 S2.
        efold (solve_at e (tot_states self)) [0..<num_x (run self)] (rate_mat self, dens self) = Inr S1 \<and>
        efold (solve_at e (tot_states self)) [0..<num_x (run self)] (rate_mat_max self, dens_max self) = Inr S2 \<and>
        s' = self\<lparr>rate_mat := fst S1, dens := snd S1, rate_mat_max := fst S2, dens_max := snd S2\<rparr>)"
  by (auto simp: solve_def ebind_Inr_iff)

lemma solve_cells:
  assumes "solve e self = Inr s'" and "i < num_x (run self)"
  shows "solve_cell e (tot_states self) (rate_mat self ! i) (dens self ! i) =
           Inr (rate_mat s' ! i, dens s' ! i)"
    and "solve_cell e (tot_states self) (rate_mat_max self ! i) (dens_max self ! i) =
           Inr (rate_mat_max s' ! i, dens_max s' ! i)"
proof -
  from assms(1) obtain S1 S2 where
    1: "efold (solve_at e (tot_states self)) [0..<num_x (run self)] (rate_mat self, dens self) = Inr S1" and
    2: "efold (solve_at e (tot_states self)) [0..<num_x (run self)] (rate_mat_max self, dens_max self) = Inr S2" and
    s': "s' = self\<lparr>rate_mat := fst S1, dens := snd S1, rate_mat_max := fst S2, dens_max := snd S2\<rparr>"
    unfolding solve_Inr by blast
  show "solve_cell e (tot_states self) (rate_mat self ! i) (dens self ! i) =
           Inr (rate_mat s' ! i, dens s' ! i)"
    using solve_field_cells [OF 1] assms(2) by (simp add: s')
  show "solve_cell e (tot_states self) (rate_mat_max self ! i) (dens_max self ! i) =
           Inr (rate_mat_max s' ! i, dens_max s' ! i)"
    using solve_field_cells [OF 2] assms(2) by (simp add: s')
qed

text \<open>
  Claim C2. In every cell the direct solve replaces the last row of the cell's rate
  matrix by ones, builds a right-hand side that is zero except for its last entry, the
  density the cell held in total, and solves the square system: the new densities are
  the inverse applied to that right-hand side, and with an exact inverse they satisfy
  the system. The same holds for the Maxwellian matrices and densities.
\<close>

theorem direct_solve_construction:
  assumes "solve e self = Inr s'" and "exact_inverse (np_inv e)" and "dens_shaped self"
    and "i < num_x (run self)"
  shows "length (rate_mat self ! i) = tot_states self \<and>
     rate_mat s' ! i = (rate_mat self ! i)[tot_states self - 1 := replicate (tot_states self) 1] \<and>
     list_all (\<lambda>row. length row = tot_states self) (rate_mat s' ! i) \<and>
     (\<exists>Mi. np_inv e (rate_mat s' ! i) = Some Mi \<and>
        dens s' ! i =
          mat_vec Mi ((replicate (tot_states self) 0)[tot_states self - 1 := sum_list (dens self ! i)])) \<and>
     mat_vec (rate_mat s' ! i) (dens s' ! i) =
       (replicate (tot_states self) 0)[tot_states self - 1 := sum_list (dens self ! i)] \<and>
     length (rate_mat_max self ! i) = tot_states self \<and>
     rate_mat_max s' ! i =
       (rate_mat_max self ! i)[tot_states self - 1 := replicate (tot_states self) 1] \<and>
     list_all (\<lambda>row. length row = tot_states self) (rate_mat_max s' ! i) \<and>
     (\<exists>Mi. np_inv e (rate_mat_max s' ! i) = Some Mi \<and>
        dens_max s' ! i =
          mat_vec Mi ((replicate (tot_states self) 0)[tot_states self - 1 := sum_list (dens_max self ! i)])) \<and>
     mat_vec (rate_mat_max s' ! i) (dens_max s' ! i) =
       (replicate (tot_states self) 0)[tot_states self - 1 := sum_list (dens_max self ! i)]"
proof -
  note c = solve_cells [OF assms(1,4)]
  note r = dens_shaped_rows [OF assms(3,4)]
  note k = solve_cell_spec [OF c(1) assms(2) r(1)]
  note m = solve_cell_spec [OF c(2) assms(2) r(2)]
  show ?thesis
    by (intro conjI) (rule k m)+
qed


lemma solve_cell_matrix:
  assumes sc: "solve_cell e n R d = Inr (M, d')" and ex: "exact_inverse (np_inv e)"
  shows "0 < n" and "length R = n" and "M = R[n - 1 := replicate n 1]"
    and "\<exists>Mi. np_inv e M = Some Mi" and "length M = n"
proof -
  define rhs where "rhs = (replicate n (0::real))[n - 1 := sum_list d]"
  from sc obtain Mi x where
    1: "set_last_row_ones R = Inr M" and 2: "direct_rhs n (sum_list d) = Inr rhs" and
    3: "inv_err e M = Inr Mi" and 4: "np_dot Mi rhs = Inr x"
    unfolding solve_cell_def ebind_Inr_iff rhs_def
    by (auto simp: direct_rhs_def split: if_splits)
  from 1 have R: "R \<noteq> []" and M: "M = R[length R - 1 := map (\<lambda>_. 1) (R ! (length R - 1))]"
    by (auto simp: set_last_row_ones_def split: if_splits)
  from 2 show n: "0 < n" by (auto simp: direct_rhs_def split: if_splits)
  have lrhs: "length rhs = n" by (simp add: rhs_def)
  from 3 have inv: "np_inv e M = Some Mi"
    by (auto simp: inv_err_def split: option.splits)
  then show "\<exists>Mi. np_inv e M = Some Mi" by blast
  from inv ex have all: "list_all (\<lambda>row. length row = length M) M \<and> length Mi = length M \<and>
      list_all (\<lambda>row. length row = length M) Mi \<and>
      (\<forall>v. length v = length M \<longrightarrow> mat_vec M (mat_vec Mi v) = v)"
    unfolding exact_inverse_def by blast
  from 4 have rows: "list_all (\<lambda>row. length row = n) Mi"
    by (auto simp: np_dot_def lrhs split: if_splits)
  have lM: "length M = length R" by (simp add: M)
  have lMi: "0 < length Mi" using all R lM by simp
  have "length (Mi ! 0) = n" using rows lMi by (simp add: list_all_length)
  moreover have "length (Mi ! 0) = length M" using all lMi by (simp add: list_all_length)
  ultimately show Mn: "length M = n" by simp
  then show Rn: "length R = n" by (simp add: lM)
  have sq: "list_all (\<lambda>row. length row = n) M" using all Mn by simp
  have "length (M ! (n - 1)) = n" using sq Mn n by (simp add: list_all_length)
  moreover have "M ! (n - 1) = map (\<lambda>_. 1) (R ! (n - 1))" using Rn n by (simp add: M)
  ultimately have "map (\<lambda>_. 1::real) (R ! (n - 1)) = replicate n 1"
    by (simp add: map_replicate_const)
  then show "M = R[n - 1 := replicate n 1]" using M Rn by simp
qed

text \<open>
  Claim C10. The direct solve writes into the stored matrices: after \<open>solve\<close> the
  last row of every stored kinetic and Maxwellian matrix is all ones, every other row
  is as it was, and the columns of a stored matrix no longer all sum to zero.
\<close>

theorem solve_overwrites_stored_matrices:
  assumes "solve e self = Inr s'" and "exact_inverse (np_inv e)" and "i < num_x (run self)"
  shows "rate_mat s' ! i ! (tot_states self - 1) = replicate (tot_states self) 1 \<and>
     (\<forall>r. r \<noteq> tot_states self - 1 \<longrightarrow> rate_mat s' ! i ! r = rate_mat self ! i ! r) \<and>
     (\<exists>j<tot_states self. col_sum (rate_mat s' ! i) j \<noteq> 0) \<and>
     rate_mat_max s' ! i ! (tot_states self - 1) = replicate (tot_states self) 1 \<and>
     (\<forall>r. r \<noteq> tot_states self - 1 \<longrightarrow> rate_mat_max s' ! i ! r = rate_mat_max self ! i ! r) \<and>
     (\<exists>j<tot_states self. col_sum (rate_mat_max s' ! i) j \<noteq> 0)"
proof -
  note c = solve_cells [OF assms(1,3)]
  note k = solve_cell_matrix [OF c(1) assms(2)]
  note m = solve_cell_matrix [OF c(2) assms(2)]
  from k(4) obtain Mi where Mi: "np_inv e (rate_mat s' ! i) = Some Mi" by blast
  from m(4) obtain Mx where Mx: "np_inv e (rate_mat_max s' ! i) = Some Mx" by blast
  show ?thesis
  proof (intro conjI allI impI)
    show "rate_mat s' ! i ! (tot_states self - 1) = replicate (tot_states self) 1"
      using k(1,2) by (simp add: k(3))
    show "rate_mat_max s' ! i ! (tot_states self - 1) = replicate (tot_states self) 1"
      using m(1,2) by (simp add: m(3))
    show "\<exists>j<tot_states self. col_sum (rate_mat s' ! i) j \<noteq> 0"
      by (rule inverse_not_all_zero [OF assms(2) Mi k(5) k(1)])
    show "\<exists>j<tot_states self. col_sum (rate_mat_max s' ! i) j \<noteq> 0"
      by (rule inverse_not_all_zero [OF assms(2) Mx m(5) m(1)])
  next
    fix r assume "r \<noteq> tot_states self - 1"
    then show "rate_mat s' ! i ! r = rate_mat self ! i ! r"
      "rate_mat_max s' ! i ! r = rate_mat_max self ! i ! r"
      by (simp_all add: k(3) m(3))
  qed
qed


lemma set_last_row_ones_idem:
  "set_last_row_ones R = Inr M \<Longrightarrow> set_last_row_ones M = Inr M"
  by (auto simp: set_last_row_ones_def list_update_same_conv split: if_splits)

text \<open>
  The cell's result depends on the density row only through its length and its sum, and
  the matrix stored by a first solve gives the same result again.
\<close>

lemma solve_cell_again:
  assumes "solve_cell e n R d = Inr (M, d')" and "length d2 = length d" and "sum_list d2 = sum_list d"
  shows "solve_cell e n M d2 = Inr (M, d')"
proof -
  from assms(1) obtain rhs Mi x where
    1: "set_last_row_ones R = Inr M" and 2: "direct_rhs n (sum_list d) = Inr rhs" and
    3: "inv_err e M = Inr Mi" and 4: "np_dot Mi rhs = Inr x" and 5: "assign_row d x = Inr d'"
    unfolding solve_cell_def ebind_Inr_iff by auto
  have "assign_row d2 x = Inr d'"
    using 5 unfolding assign_row_def assms(2) .
  with set_last_row_ones_idem [OF 1] 2 3 4 show ?thesis
    unfolding solve_cell_def ebind_Inr_iff by (simp add: assms(3))
qed

lemma solve_field_again:
  assumes run1: "efold (solve_at e n) [0..<k] (Ms, ds) = Inr S1"
    and len: "length ds = k" "length D = k"
    and rows: "\<forall>i<k. length (D ! i) = length (ds ! i) \<and> sum_list (D ! i) = sum_list (ds ! i)"
  shows "efold (solve_at e n) [0..<k] (fst S1, D) = Inr S1"
proof -
  note c = solve_field_cells [OF run1]
  have cells: "\<forall>i<k. solve_cell e n (fst S1 ! i) (D ! i) = Inr (fst S1 ! i, snd S1 ! i)"
  proof (intro allI impI)
    fix i assume i: "i < k"
    with c have "solve_cell e n (Ms ! i) (ds ! i) = Inr (fst S1 ! i, snd S1 ! i)" by simp
    then show "solve_cell e n (fst S1 ! i) (D ! i) = Inr (fst S1 ! i, snd S1 ! i)"
      using rows i by (intro solve_cell_again) simp_all
  qed
  have "efold (solve_at e n) [0..<k] (fst S1, D) =
      Inr (take k (fst S1) @ drop k (fst S1), take k (snd S1) @ drop k D)"
    using c len cells by (intro solve_field_intro) simp_all
  also have "take k (snd S1) @ drop k D = snd S1"
    using c len by simp
  finally show ?thesis by simp
qed

text \<open>
  Claim C4. The direct solve is idempotent. After a first solve, solving again from
  any densities with the shape and the per-cell totals of the initial ones (the
  initial densities themselves among them) ends in the state of the first solve: the
  result depends on the stored matrices and the totals only. With an exact inverse the
  solved densities have those totals, so solving twice in a row is solving once.
\<close>

theorem solve_is_idempotent:
  assumes "solve e self = Inr s1" and "dens_shaped self"
  shows "(\<forall>D Dm. map length D = map length (dens self) \<and> map sum_list D = map sum_list (dens self) \<and>
            map length Dm = map length (dens_max self) \<and>
            map sum_list Dm = map sum_list (dens_max self) \<longrightarrow>
            solve e (s1\<lparr>dens := D, dens_max := Dm\<rparr>) = Inr s1) \<and>
         (exact_inverse (np_inv e) \<longrightarrow> solve e s1 = Inr s1)"
proof -
  from assms(1) obtain S1 S2 where
    1: "efold (solve_at e (tot_states self)) [0..<num_x (run self)] (rate_mat self, dens self) = Inr S1" and
    2: "efold (solve_at e (tot_states self)) [0..<num_x (run self)] (rate_mat_max self, dens_max self) = Inr S2" and
    s1: "s1 = self\<lparr>rate_mat := fst S1, dens := snd S1, rate_mat_max := fst S2, dens_max := snd S2\<rparr>"
    unfolding solve_Inr by blast
  have l: "length (dens self) = num_x (run self)" "length (dens_max self) = num_x (run self)"
    using assms(2) by (simp_all add: dens_shaped_def)
  have gen: "solve e (s1\<lparr>dens := D, dens_max := Dm\<rparr>) = Inr s1"
    if D: "map length D = map length (dens self)" "map sum_list D = map sum_list (dens self)"
      and Dm: "map length Dm = map length (dens_max self)"
        "map sum_list Dm = map sum_list (dens_max self)" for D Dm
  proof -
    have lD: "length D = num_x (run self)" "length Dm = num_x (run self)"
      using map_eq_imp_length_eq [OF D(1)] map_eq_imp_length_eq [OF Dm(1)] l by simp_all
    have rD: "\<forall>i<num_x (run self). length (D ! i) = length (dens self ! i) \<and>
        sum_list (D ! i) = sum_list (dens self ! i)"
    proof (intro allI impI)
      fix i assume "i < num_x (run self)"
      then have "i < length D" "i < length (dens self)" using lD l by simp_all
      then have "map length D ! i = length (D ! i)" "map length (dens self) ! i = length (dens self ! i)"
        "map sum_list D ! i = sum_list (D ! i)" "map sum_list (dens self) ! i = sum_list (dens self ! i)"
        by simp_all
      then show "length (D ! i) = length (dens self ! i) \<and> sum_list (D ! i) = sum_list (dens self ! i)"
        using D by simp
    qed
    have rDm: "\<forall>i<num_x (run self). length (Dm ! i) = length (dens_max self ! i) \<and>
        sum_list (Dm ! i) = sum_list (dens_max self ! i)"
    proof (intro allI impI)
      fix i assume "i < num_x (run self)"
      then have "i < length Dm" "i < length (dens_max self)" using lD l by simp_all
      then have "map length Dm ! i = length (Dm ! i)"
        "map length (dens_max self) ! i = length (dens_max self ! i)"
        "map sum_list Dm ! i = sum_list (Dm ! i)"
        "map sum_list (dens_max self) ! i = sum_list (dens_max self ! i)"
        by simp_all
      then show "length (Dm ! i) = length (dens_max self ! i) \<and>
          sum_list (Dm ! i) = sum_list (dens_max self ! i)"
        using Dm by simp
    qed
    have a: "efold (solve_at e (tot_states self)) [0..<num_x (run self)] (fst S1, D) = Inr S1"
      by (rule solve_field_again [OF 1 l(1) lD(1) rD])
    have b: "efold (solve_at e (tot_states self)) [0..<num_x (run self)] (fst S2, Dm) = Inr S2"
      by (rule solve_field_again [OF 2 l(2) lD(2) rDm])
    show ?thesis
      unfolding solve_Inr
      by (rule exI [of _ S1], rule exI [of _ S2]) (simp add: s1 a b)
  qed
  have idem: "solve e s1 = Inr s1" if ex: "exact_inverse (np_inv e)"
  proof -
    have cons: "length (dens s1 ! i) = length (dens self ! i) \<and>
        sum_list (dens s1 ! i) = sum_list (dens self ! i) \<and>
        length (dens_max s1 ! i) = length (dens_max self ! i) \<and>
        sum_list (dens_max s1 ! i) = sum_list (dens_max self ! i)" if i: "i < num_x (run self)" for i
    proof -
      note c = solve_cells [OF assms(1) i]
      note r = dens_shaped_rows [OF assms(2) i]
      note k = solve_cell_spec [OF c(1) ex r(1)]
      note m = solve_cell_spec [OF c(2) ex r(2)]
      show ?thesis by (simp add: k(7,8) m(7,8) r)
    qed
    have ls: "length (dens s1) = num_x (run self)" "length (dens_max s1) = num_x (run self)"
      using solve_field_cells [OF 1] solve_field_cells [OF 2] l by (simp_all add: s1)
    have "map length (dens s1) = map length (dens self)" "map sum_list (dens s1) = map sum_list (dens self)"
      "map length (dens_max s1) = map length (dens_max self)"
      "map sum_list (dens_max s1) = map sum_list (dens_max self)"
      using ls l cons by (auto intro!: nth_equalityI)
    from gen [OF this] have "solve e (s1\<lparr>dens := dens s1, dens_max := dens_max s1\<rparr>) = Inr s1" .
    moreover have "s1\<lparr>dens := dens s1, dens_max := dens_max s1\<rparr> = s1" by simp
    ultimately show ?thesis by (simp only:)
  qed
  from gen idem show ?thesis by blast
qed

lemma direct_solve_conserves:
  assumes "solve e self = Inr s'" and "exact_inverse (np_inv e)" and "dens_shaped self"
    and "i < num_x (run self)"
  shows "sum_list (dens s' ! i) = sum_list (dens self ! i) \<and>
         sum_list (dens_max s' ! i) = sum_list (dens_max self ! i)"
proof -
  note c = solve_cells [OF assms(1,4)]
  note r = dens_shaped_rows [OF assms(3,4)]
  show ?thesis
    using solve_cell_spec(8) [OF c(1) assms(2) r(1)] solve_cell_spec(8) [OF c(2) assms(2) r(2)]
    by simp
qed


lemma exact_inverse_inv2: "exact_inverse inv2"
  unfolding exact_inverse_def
proof (intro allI impI)
  fix M Mi assume "inv2 M = Some Mi"
  then obtain a b c d where M: "M = [[a, b], [c, d]]" and det: "a * d - b * c \<noteq> 0"
    and Mi: "Mi = [[d / (a * d - b * c), - b / (a * d - b * c)],
                   [- c / (a * d - b * c), a / (a * d - b * c)]]"
    by (elim inv2.elims) (auto split: if_splits)
  define D where "D = a * d - b * c"
  have D: "D \<noteq> 0" using det by (simp add: D_def)
  have "mat_vec M (mat_vec Mi v) = v" if "length v = length M" for v
  proof -
    from that obtain x y where v: "v = [x, y]"
      by (cases v; cases "tl v") (auto simp: M)
    define p where "p = d / D * x + - b / D * y"
    define q where "q = - c / D * x + a / D * y"
    have "a * p + b * q = (a * d - b * c) * x / D"
      by (simp add: p_def q_def algebra_simps diff_divide_distrib add_divide_distrib)
    then have 1: "a * p + b * q = x" using D by (simp add: D_def)
    have "c * p + d * q = (a * d - b * c) * y / D"
      by (simp add: p_def q_def algebra_simps diff_divide_distrib add_divide_distrib)
    then have 2: "c * p + d * q = y" using D by (simp add: D_def)
    have "mat_vec Mi v = [p, q]"
      by (simp add: v Mi mat_vec_def dot_def p_def q_def D_def)
    then show ?thesis
      using 1 2 by (simp add: v M mat_vec_def dot_def)
  qed
  then show "list_all (\<lambda>row. length row = length M) M \<and> length Mi = length M \<and>
      list_all (\<lambda>row. length row = length M) Mi \<and>
      (\<forall>v. length v = length M \<longrightarrow> mat_vec M (mat_vec Mi v) = v)"
    by (simp add: M Mi)
qed

text \<open>The instance after the direct solve: without recombination all density is ionised.\<close>

definition ex_solved :: impurity where
  "ex_solved = ex_built\<lparr>rate_mat := [[[- 1, 0], [1, 1]]], dens := [[0, 3]],
      rate_mat_max := [[[- 1, 0], [1, 1]]], dens_max := [[0, 3]]\<rparr>"

lemma ex_built_dims:
  "tot_states ex_built = 2" "num_x (run ex_built) = 1" "np_inv ex_env = inv2"
  by (simp_all add: ex_built_def ex_loaded_def ex_imp_def ex_run_def ex_env_def)

lemma ex_built_shaped: "dens_shaped ex_built"
  by (simp add: dens_shaped_def ex_built_def ex_loaded_def ex_imp_def ex_run_def)

lemma ex_solve: "solve ex_env ex_built = Inr ex_solved"
  by (simp add: solve_def ex_built_dims solve_at_def solve_cell_def ebind_def nth_err_def
      set_last_row_ones_def direct_rhs_def inv_err_def np_dot_def mat_vec_def dot_def assign_row_def
      ex_solved_def ex_built_def ex_loaded_def ex_imp_def ex_run_def ex_env_def numeral_2_eq_2)

theorem solve_overwrites_stored_matrices_witness:
  "rate_mat ex_solved ! 0 ! 1 = replicate 2 1 \<and>
   rate_mat ex_solved ! 0 ! 0 = rate_mat ex_built ! 0 ! 0 \<and>
   (\<exists>j<2. col_sum (rate_mat ex_solved ! 0) j \<noteq> 0) \<and>
   rate_mat_max ex_solved ! 0 ! 1 = replicate 2 1 \<and>
   rate_mat_max ex_solved ! 0 ! 0 = rate_mat_max ex_built ! 0 ! 0 \<and>
   (\<exists>j<2. col_sum (rate_mat_max ex_solved ! 0) j \<noteq> 0)"
proof -
  have ex: "exact_inverse (np_inv ex_env)"
    by (simp add: ex_built_dims exact_inverse_inv2)
  have i: "0 < num_x (run ex_built)"
    by (simp add: ex_built_dims)
  from solve_overwrites_stored_matrices [OF ex_solve ex i] show ?thesis
    by (simp add: ex_built_dims)
qed

theorem solve_is_idempotent_witness:
  "solve ex_env (ex_solved\<lparr>dens := [[1, 2]], dens_max := [[3, 0]]\<rparr>) = Inr ex_solved \<and>
   solve ex_env ex_solved = Inr ex_solved"
proof -
  have ex: "exact_inverse (np_inv ex_env)"
    by (simp add: ex_built_dims exact_inverse_inv2)
  have d: "map length [[1, 2::real]] = map length (dens ex_built) \<and>
           map sum_list [[1, 2::real]] = map sum_list (dens ex_built) \<and>
           map length [[3, 0::real]] = map length (dens_max ex_built) \<and>
           map sum_list [[3, 0::real]] = map sum_list (dens_max ex_built)"
    by (simp add: ex_built_def ex_loaded_def ex_imp_def)
  from solve_is_idempotent [OF ex_solve ex_built_shaped] ex d show ?thesis
    by blast
qed


theorem direct_solve_construction_witness:
  "rate_mat ex_solved ! 0 = (rate_mat ex_built ! 0)[2 - 1 := replicate 2 1] \<and>
   (\<exists>Mi. np_inv ex_env (rate_mat ex_solved ! 0) = Some Mi \<and>
      dens ex_solved ! 0 = mat_vec Mi ((replicate 2 0)[2 - 1 := sum_list (dens ex_built ! 0)])) \<and>
   mat_vec (rate_mat ex_solved ! 0) (dens ex_solved ! 0) =
     (replicate 2 0)[2 - 1 := sum_list (dens ex_built ! 0)]"
proof -
  have ex: "exact_inverse (np_inv ex_env)"
    by (simp add: ex_built_dims exact_inverse_inv2)
  have i: "0 < num_x (run ex_built)"
    by (simp add: ex_built_dims)
  from direct_solve_construction [OF ex_solve ex ex_built_shaped i, unfolded ex_built_dims(1)]
  show ?thesis
    by blast
qed

section \<open>Conservation of the total density\<close>

lemma evolve_at_Inr:
  "evolve_at ops d k tmp = Inr tmp' \<longleftrightarrow>
     k < length ops \<and> k < length d \<and> k < length tmp \<and>
     list_all (\<lambda>row. length row = length (d ! k)) (ops ! k) \<and>
     (\<exists>row'. assign_row (tmp ! k) (mat_vec (ops ! k) (d ! k)) = Inr row' \<and> tmp' = tmp[k := row'])"
  by (auto simp: evolve_at_def ebind_Inr_iff nth_err_def np_dot_def)

lemma evolve_loop_cells:
  "efold (evolve_at ops d) [0..<k] tmp = Inr tmp' \<Longrightarrow>
     length tmp' = length tmp \<and> k \<le> length tmp \<and> k \<le> length ops \<and> k \<le> length d \<and>
     (\<forall>i<k. list_all (\<lambda>row. length row = length (d ! i)) (ops ! i) \<and>
            assign_row (tmp ! i) (mat_vec (ops ! i) (d ! i)) = Inr (tmp' ! i)) \<and>
     (\<forall>i\<ge>k. tmp' ! i = tmp ! i)"
proof (induction k arbitrary: tmp')
  case 0
  then show ?case by simp
next
  case (Suc k)
  from Suc.prems obtain t1 where 1: "efold (evolve_at ops d) [0..<k] tmp = Inr t1"
    and 2: "evolve_at ops d k t1 = Inr tmp'"
    unfolding efold_upt_Suc by blast
  note ih = Suc.IH [OF 1]
  from 2 obtain row' where k: "k < length ops" "k < length d" "k < length t1"
    and sh: "list_all (\<lambda>row. length row = length (d ! k)) (ops ! k)"
    and r: "assign_row (t1 ! k) (mat_vec (ops ! k) (d ! k)) = Inr row'"
    and t': "tmp' = t1[k := row']"
    unfolding evolve_at_Inr by blast
  have same: "t1 ! k = tmp ! k" using ih by simp
  show ?case
  proof (intro conjI allI impI)
    show "length tmp' = length tmp" using ih by (simp add: t')
    show "Suc k \<le> length tmp" "Suc k \<le> length ops" "Suc k \<le> length d"
      using ih k by simp_all
  next
    fix i assume i: "i < Suc k"
    show "list_all (\<lambda>row. length row = length (d ! i)) (ops ! i)"
      using i ih sh by (cases "i = k") simp_all
    show "assign_row (tmp ! i) (mat_vec (ops ! i) (d ! i)) = Inr (tmp' ! i)"
    proof (cases "i = k")
      case True
      then show ?thesis using r k by (simp add: t' same)
    next
      case False
      with i have "i < k" by simp
      with ih have "assign_row (tmp ! i) (mat_vec (ops ! i) (d ! i)) = Inr (t1 ! i)" by blast
      then show ?thesis using False by (simp add: t')
    qed
  next
    fix i assume "Suc k \<le> i"
    then have "k \<le> i" "i \<noteq> k" by simp_all
    with ih have "t1 ! i = tmp ! i" by simp
    then show "tmp' ! i = tmp ! i" using \<open>i \<noteq> k\<close> by (simp add: t')
  qed
qed

lemma evolve_field_Inr:
  "evolve_field nx ops d tmp = Inr r \<longleftrightarrow>
     (\<exists>ds. efold (evolve_at ops d) [0..<nx] tmp = Inr (fst r) \<and>
           abs_diff (fst r) d = Inr ds \<and> np_max ds = Inr (snd r))"
  by (cases r) (auto simp: evolve_field_def ebind_Inr_iff)

lemma evolve_Inr:
  "evolve self = Inr (s', r) \<longleftrightarrow>
     (\<exists>r1 r2. evolve_field (num_x (run self)) (op_mat self) (dens self) (tmp_dens self) = Inr r1 \<and>
        evolve_field (num_x (run self)) (op_mat_max self) (dens_max self) (fst r1) = Inr r2 \<and>
        s' = self\<lparr>dens := fst r1, dens_max := fst r2, tmp_dens := fst r2\<rparr> \<and>
        r = max (snd r1) (snd r2))"
  by (auto simp: evolve_def ebind_Inr_iff)

text \<open>A matrix of the builder has the shape of the zero matrix it started from.\<close>

lemma zeros_shape: "map length (zeros n n) = replicate n n"
  by (simp add: zeros_def)

lemma shape_square:
  assumes "map length M = replicate n n"
  shows "length M = n" "list_all (\<lambda>row. length row = n) M"
proof -
  from assms have "length (map length M) = n" by simp
  then show l: "length M = n" by simp
  have "length (M ! i) = n" if "i < length M" for i
  proof -
    have "map length M ! i = n" using that l by (simp add: assms)
    then show ?thesis using that by simp
  qed
  then show "list_all (\<lambda>row. length row = n) M" by (simp add: list_all_length)
qed

lemma built_ops_conserve:
  assumes b: "build_rate_matrices e s0 = Inr s1" and ex: "exact_inverse (np_inv e)"
    and i: "i < num_x (run s0)" and v: "length v = tot_states s0"
  shows "sum_list (mat_vec (op_mat s1 ! i) v) = sum_list v"
    and "sum_list (mat_vec (op_mat_max s1 ! i) v) = sum_list v"
    and "length (mat_vec (op_mat s1 ! i) v) = tot_states s0"
    and "length (mat_vec (op_mat_max s1 ! i) v) = tot_states s0"
proof -
  let ?n = "tot_states s0" and ?dt = "DELTA_T (inp e)"
  from build_cells [OF b i] obtain f0 f0m where
    c: "cell_rates e s0 f0 f0m i = Inr (rate_mat s1 ! i, rate_mat_max s1 ! i)" and
    o: "inv_err e (be_operator ?dt ?n (rate_mat s1 ! i)) = Inr (op_mat s1 ! i)" and
    om: "inv_err e (be_operator ?dt ?n (rate_mat_max s1 ! i)) = Inr (op_mat_max s1 ! i)"
    by blast
  from cell_rates_same [OF c] have
    cs: "\<And>j. j < ?n \<Longrightarrow> col_sum (rate_mat s1 ! i) j = 0"
      "\<And>j. j < ?n \<Longrightarrow> col_sum (rate_mat_max s1 ! i) j = 0" and
    sh: "map length (rate_mat s1 ! i) = replicate ?n ?n"
      "map length (rate_mat_max s1 ! i) = replicate ?n ?n"
    by (simp_all add: same_col_sums_def fun_eq_iff col_sum_zeros zeros_shape)
  note sq = shape_square [OF sh(1)] and sqm = shape_square [OF sh(2)]
  from o have inv: "np_inv e (be_operator ?dt ?n (rate_mat s1 ! i)) = Some (op_mat s1 ! i)"
    by (auto simp: inv_err_def split: option.splits)
  from om have invm: "np_inv e (be_operator ?dt ?n (rate_mat_max s1 ! i)) = Some (op_mat_max s1 ! i)"
    by (auto simp: inv_err_def split: option.splits)
  have one: "col_sum (be_operator ?dt ?n (rate_mat s1 ! i)) j = 1" if "j < ?n" for j
    using be_operator_col_sum [OF sq that] cs(1) [OF that] by simp
  have onem: "col_sum (be_operator ?dt ?n (rate_mat_max s1 ! i)) j = 1" if "j < ?n" for j
    using be_operator_col_sum [OF sqm that] cs(2) [OF that] by simp
  show "sum_list (mat_vec (op_mat s1 ! i) v) = sum_list v"
    by (rule inverse_conserves [OF ex inv be_operator_shape(1) [OF sq] one v])
  show "sum_list (mat_vec (op_mat_max s1 ! i) v) = sum_list v"
    by (rule inverse_conserves [OF ex invm be_operator_shape(1) [OF sqm] onem v])
  show "length (mat_vec (op_mat s1 ! i) v) = ?n"
    by (rule inverse_sum(2) [OF ex inv be_operator_shape(1) [OF sq] v])
  show "length (mat_vec (op_mat_max s1 ! i) v) = ?n"
    by (rule inverse_sum(2) [OF ex invm be_operator_shape(1) [OF sqm] v])
qed


lemma evolve_field_rows:
  assumes "evolve_field nx ops d tmp = Inr r"
    and "\<And>i. i < nx \<Longrightarrow> length (mat_vec (ops ! i) (d ! i)) = length (tmp ! i)"
  shows "\<And>i. i < nx \<Longrightarrow> fst r ! i = mat_vec (ops ! i) (d ! i)"
    and "length (fst r) = length tmp"
proof -
  from assms(1) have 1: "efold (evolve_at ops d) [0..<nx] tmp = Inr (fst r)"
    unfolding evolve_field_Inr by blast
  note c = evolve_loop_cells [OF 1]
  show "length (fst r) = length tmp" using c by simp
  fix i assume i: "i < nx"
  with c have "assign_row (tmp ! i) (mat_vec (ops ! i) (d ! i)) = Inr (fst r ! i)" by blast
  then show "fst r ! i = mat_vec (ops ! i) (d ! i)"
    using assms(2) [OF i] by (simp add: assign_row_def)
qed

lemma evolve_step_conserves:
  assumes ex: "exact_inverse (np_inv e)" and b: "build_rate_matrices e s0 = Inr s1"
    and ops: "op_mat self = op_mat s1" "op_mat_max self = op_mat_max s1"
    and same: "tot_states self = tot_states s0" "run self = run s0"
    and sh: "dens_shaped self" and ev: "evolve self = Inr (s', r)" and i: "i < num_x (run self)"
  shows "sum_list (dens s' ! i) = sum_list (dens self ! i) \<and>
         sum_list (dens_max s' ! i) = sum_list (dens_max self ! i)"
proof -
  from ev obtain r1 r2 where
    1: "evolve_field (num_x (run self)) (op_mat self) (dens self) (tmp_dens self) = Inr r1" and
    2: "evolve_field (num_x (run self)) (op_mat_max self) (dens_max self) (fst r1) = Inr r2" and
    s': "s' = self\<lparr>dens := fst r1, dens_max := fst r2, tmp_dens := fst r2\<rparr>"
    unfolding evolve_Inr by blast
  have i0: "\<And>k. k < num_x (run self) \<Longrightarrow> k < num_x (run s0)" by (simp add: same)
  have l1: "length (mat_vec (op_mat self ! k) (dens self ! k)) = length (tmp_dens self ! k)"
    if "k < num_x (run self)" for k
    using built_ops_conserve(3) [OF b ex i0 [OF that], of "dens self ! k"]
      dens_shaped_rows [OF sh that] by (simp add: ops same)
  have f1: "fst r1 ! k = mat_vec (op_mat self ! k) (dens self ! k)" if "k < num_x (run self)" for k
    by (rule evolve_field_rows(1) [OF 1]) (simp_all add: l1 that)
  have l2: "length (mat_vec (op_mat_max self ! k) (dens_max self ! k)) = length (fst r1 ! k)"
    if "k < num_x (run self)" for k
    using built_ops_conserve(4) [OF b ex i0 [OF that], of "dens_max self ! k"]
      dens_shaped_rows [OF sh that] l1 [OF that] f1 [OF that] by (simp add: ops same)
  have f2: "fst r2 ! k = mat_vec (op_mat_max self ! k) (dens_max self ! k)"
    if "k < num_x (run self)" for k
    by (rule evolve_field_rows(1) [OF 2]) (simp_all add: l2 that)
  have "sum_list (fst r1 ! i) = sum_list (dens self ! i)"
    using built_ops_conserve(1) [OF b ex i0 [OF i], of "dens self ! i"]
      dens_shaped_rows [OF sh i] by (simp add: f1 [OF i] ops same)
  moreover have "sum_list (fst r2 ! i) = sum_list (dens_max self ! i)"
    using built_ops_conserve(2) [OF b ex i0 [OF i], of "dens_max self ! i"]
      dens_shaped_rows [OF sh i] by (simp add: f2 [OF i] ops same)
  ultimately show ?thesis by (simp add: s')
qed

text \<open>
  Claim C1. In every cell the total density over the states, of the kinetic and of the
  Maxwellian densities, is the same after a direct solve and after one implicit Euler
  step as before it. Here in exact arithmetic, where the inverse is exact and both
  equalities are exact; the operators of the step are those the builder stored, and the
  density arrays have one row per cell and one entry per state.
\<close>

theorem particle_conservation:
  assumes "exact_inverse (np_inv e)" and "build_rate_matrices e s0 = Inr s1"
    and "op_mat self = op_mat s1" and "op_mat_max self = op_mat_max s1"
    and "tot_states self = tot_states s0" and "run self = run s0"
    and "dens_shaped self" and "i < num_x (run self)"
  shows "(\<forall>s'. solve e self = Inr s' \<longrightarrow>
            sum_list (dens s' ! i) = sum_list (dens self ! i) \<and>
            sum_list (dens_max s' ! i) = sum_list (dens_max self ! i)) \<and>
         (\<forall>s' r. evolve self = Inr (s', r) \<longrightarrow>
            sum_list (dens s' ! i) = sum_list (dens self ! i) \<and>
            sum_list (dens_max s' ! i) = sum_list (dens_max self ! i))"
proof (intro conjI allI impI)
  fix s' assume "solve e self = Inr s'"
  from direct_solve_conserves [OF this assms(1,7,8)]
  show "sum_list (dens s' ! i) = sum_list (dens self ! i)"
    "sum_list (dens_max s' ! i) = sum_list (dens_max self ! i)"
    by simp_all
next
  fix s' r assume "evolve self = Inr (s', r)"
  from evolve_step_conserves [OF assms(1-7) this assms(8)]
  show "sum_list (dens s' ! i) = sum_list (dens self ! i)"
    "sum_list (dens_max s' ! i) = sum_list (dens_max self ! i)"
    by simp_all
qed

text \<open>The instance after one step from the built state.\<close>

definition ex_evolved :: impurity where
  "ex_evolved = ex_built\<lparr>dens := [[2, 1]], dens_max := [[2, 1]], tmp_dens := [[2, 1]]\<rparr>"

lemma ex_evolve: "evolve ex_built = Inr (ex_evolved, 1)"
  by (simp add: evolve_def evolve_field_def evolve_at_def ebind_def nth_err_def np_dot_def
      mat_vec_def dot_def assign_row_def abs_diff_def ex_evolved_def ex_built_def ex_loaded_def
      ex_imp_def ex_run_def)

theorem particle_conservation_witness:
  "solve ex_env ex_built = Inr ex_solved \<and>
   sum_list (dens ex_solved ! 0) = sum_list (dens ex_built ! 0) \<and>
   sum_list (dens_max ex_solved ! 0) = sum_list (dens_max ex_built ! 0) \<and>
   evolve ex_built = Inr (ex_evolved, 1) \<and>
   sum_list (dens ex_evolved ! 0) = sum_list (dens ex_built ! 0) \<and>
   sum_list (dens_max ex_evolved ! 0) = sum_list (dens_max ex_built ! 0)"
proof -
  have ex: "exact_inverse (np_inv ex_env)"
    by (simp add: ex_built_dims exact_inverse_inv2)
  have same: "tot_states ex_built = tot_states ex_loaded" "run ex_built = run ex_loaded"
    by (simp_all add: ex_built_def)
  have i: "0 < num_x (run ex_built)"
    by (simp add: ex_built_dims)
  from particle_conservation [OF ex ex_build refl refl same ex_built_shaped i] ex_solve ex_evolve
  show ?thesis by blast
qed


section \<open>The clamped radiative-recombination rate\<close>

text \<open>The entries a transition writes exist in the matrix.\<close>

definition locs_in_range :: "transition \<Rightarrow> mat \<Rightarrow> bool" where
  "locs_in_range tr M \<longleftrightarrow>
     from_loc tr < length M \<and> to_loc tr < length M \<and>
     from_loc tr < length (M ! from_loc tr) \<and> from_loc tr < length (M ! to_loc tr)"

text \<open>The radiative recombination of the instance; its interpolant is \<open>-1\<close> at temperature 1.\<close>

definition ex_radrec :: transition where
  "ex_radrec = ex_mk_transition ''radrec'' ''Carbon'' ex_run ex_state1 ex_state0 ''Badnell''"

lemma add_at_zero: "r < length M \<Longrightarrow> c < length (M ! r) \<Longrightarrow> add_at M r c 0 = Inr M"
  by (simp add: add_at_def)

lemma add_loss_gain_zero:
  "locs_in_range tr (fst MM) \<Longrightarrow> locs_in_range tr (snd MM) \<Longrightarrow>
   add_loss_gain MM (from_loc tr) (to_loc tr) 0 0 = Inr MM"
  by (simp add: add_loss_gain_def locs_in_range_def add_at_zero ebind_def)

text \<open>
  Two matrices of the same shape whose entries differ by \<open>D\<close>, and the same for a pair of
  a kinetic and a Maxwellian matrix.
\<close>

definition shifted :: "mat \<Rightarrow> mat \<Rightarrow> (nat \<Rightarrow> nat \<Rightarrow> real) \<Rightarrow> bool" where
  "shifted A B D \<longleftrightarrow>
     map length A = map length B \<and>
     (\<forall>r<length A. \<forall>c<length (A ! r). A ! r ! c = B ! r ! c + D r c)"

definition shifted2 :: "mat \<times> mat \<Rightarrow> mat \<times> mat \<Rightarrow> (nat \<Rightarrow> nat \<Rightarrow> real) \<Rightarrow> (nat \<Rightarrow> nat \<Rightarrow> real) \<Rightarrow> bool" where
  "shifted2 AA BB D Dm \<longleftrightarrow> shifted (fst AA) (fst BB) D \<and> shifted (snd AA) (snd BB) Dm"

text \<open>What a loss \<open>-K\<close> at \<open>(origin, origin)\<close> and a gain \<open>K\<close> at \<open>(target, origin)\<close> add to the entry \<open>(r, c)\<close>.\<close>

definition loss_gain :: "nat \<Rightarrow> nat \<Rightarrow> real \<Rightarrow> nat \<Rightarrow> nat \<Rightarrow> real" where
  "loss_gain origin target K r c =
     (if c = origin then (if r = target then K else 0) - (if r = origin then K else 0) else 0)"

lemma shape_nth:
  assumes "map length A = map length B"
  shows "length A = length B" "r < length A \<Longrightarrow> length (A ! r) = length (B ! r)"
proof -
  from assms have "length (map length A) = length (map length B)" by simp
  then show l: "length A = length B" by simp
  show "length (A ! r) = length (B ! r)" if "r < length A"
  proof -
    have "map length A ! r = map length B ! r" by (simp add: assms)
    then show ?thesis using that l by simp
  qed
qed

lemma add_at_Inr:
  "add_at M r c v = Inr M' \<longleftrightarrow>
     r < length M \<and> c < length (M ! r) \<and> M' = M[r := (M ! r)[c := M ! r ! c + v]]"
  by (auto simp: add_at_def)

lemma add_at_entry:
  assumes "add_at M r c v = Inr M'" and "r' < length M" and "c' < length (M ! r')"
  shows "M' ! r' ! c' = M ! r' ! c' + (if r' = r \<and> c' = c then v else 0)"
  using assms by (auto simp: add_at_Inr nth_list_update)

lemma shifted_refl: "shifted A A (\<lambda>r c. 0)"
  by (simp add: shifted_def)

lemma shifted_trans:
  assumes "shifted A B D" and "shifted B C E"
  shows "shifted A C (\<lambda>r c. E r c + D r c)"
proof -
  from assms have s: "map length A = map length B" "map length B = map length C"
    by (simp_all add: shifted_def)
  show ?thesis
    unfolding shifted_def
  proof (intro conjI allI impI)
    show "map length A = map length C" using s by simp
    fix r c assume r: "r < length A" and c: "c < length (A ! r)"
    from shape_nth [OF s(1)] r c have "r < length B" "c < length (B ! r)" by simp_all
    with assms r c show "A ! r ! c = C ! r ! c + (E r c + D r c)"
      by (simp add: shifted_def)
  qed
qed

lemma add_at_shifted_self:
  assumes "add_at M r c v = Inr M'"
  shows "shifted M' M (\<lambda>r' c'. if r' = r \<and> c' = c then v else 0)"
  unfolding shifted_def
proof (intro conjI allI impI)
  show "map length M' = map length M" by (rule add_at_shape [OF assms])
  fix r' c' assume r: "r' < length M'" and c: "c' < length (M' ! r')"
  from shape_nth [OF add_at_shape [OF assms]] r c have "r' < length M" "c' < length (M ! r')"
    by simp_all
  then show "M' ! r' ! c' = M ! r' ! c' + (if r' = r \<and> c' = c then v else 0)"
    by (rule add_at_entry [OF assms])
qed

lemma add_at_shifted:
  assumes a: "add_at A r c v = Inr A'" and s: "shifted A B D"
  shows "\<exists>B'. add_at B r c v = Inr B' \<and> shifted A' B' D"
proof -
  from s have sh: "map length A = map length B" by (simp add: shifted_def)
  from a have r: "r < length A" and c: "c < length (A ! r)" by (simp_all add: add_at_Inr)
  from shape_nth [OF sh] r c have rB: "r < length B" and cB: "c < length (B ! r)" by simp_all
  define B' where "B' = B[r := (B ! r)[c := B ! r ! c + v]]"
  have b: "add_at B r c v = Inr B'" using rB cB by (simp add: add_at_Inr B'_def)
  have "shifted A' B' D"
    unfolding shifted_def
  proof (intro conjI allI impI)
    show "map length A' = map length B'"
      by (simp add: add_at_shape [OF a] add_at_shape [OF b] sh)
    fix r' c' assume r': "r' < length A'" and c': "c' < length (A' ! r')"
    from shape_nth [OF add_at_shape [OF a]] r' c' have 1: "r' < length A" "c' < length (A ! r')"
      by simp_all
    with shape_nth [OF sh] have 2: "r' < length B" "c' < length (B ! r')" by simp_all
    from s 1 have "A ! r' ! c' = B ! r' ! c' + D r' c'" by (simp add: shifted_def)
    then show "A' ! r' ! c' = B' ! r' ! c' + D r' c'"
      by (simp add: add_at_entry [OF a 1] add_at_entry [OF b 2])
  qed
  with b show ?thesis by blast
qed

lemma add_loss_gain_shifted_self:
  assumes "add_loss_gain MM a b K Kx = Inr MM'"
  shows "shifted2 MM' MM (loss_gain a b K) (loss_gain a b Kx)"
proof -
  from assms obtain M1 X1 M2 X2 where
    1: "add_at (fst MM) a a (- K) = Inr M1" and 2: "add_at (snd MM) a a (- Kx) = Inr X1" and
    3: "add_at M1 b a K = Inr M2" and 4: "add_at X1 b a Kx = Inr X2" and 5: "MM' = (M2, X2)"
    unfolding add_loss_gain_def ebind_Inr_iff by auto
  have e: "(\<lambda>r c. (if r = a \<and> c = a then - k else 0) + (if r = b \<and> c = a then k else 0)) =
      loss_gain a b k" for k :: real
    by (auto simp: loss_gain_def fun_eq_iff)
  show ?thesis
    unfolding shifted2_def 5 fst_conv snd_conv
    using shifted_trans [OF add_at_shifted_self [OF 3] add_at_shifted_self [OF 1]]
      shifted_trans [OF add_at_shifted_self [OF 4] add_at_shifted_self [OF 2]]
    by (simp add: e)
qed

lemma add_loss_gain_shifted:
  assumes a: "add_loss_gain AA a b K Kx = Inr AA'" and s: "shifted2 AA BB D Dm"
  shows "\<exists>BB'. add_loss_gain BB a b K Kx = Inr BB' \<and> shifted2 AA' BB' D Dm"
proof -
  from a obtain M1 X1 M2 X2 where
    1: "add_at (fst AA) a a (- K) = Inr M1" and 2: "add_at (snd AA) a a (- Kx) = Inr X1" and
    3: "add_at M1 b a K = Inr M2" and 4: "add_at X1 b a Kx = Inr X2" and 5: "AA' = (M2, X2)"
    unfolding add_loss_gain_def ebind_Inr_iff by auto
  from s have s1: "shifted (fst AA) (fst BB) D" and s2: "shifted (snd AA) (snd BB) Dm"
    by (simp_all add: shifted2_def)
  from add_at_shifted [OF 1 s1] obtain N1 where
    n1: "add_at (fst BB) a a (- K) = Inr N1" "shifted M1 N1 D" by blast
  from add_at_shifted [OF 2 s2] obtain Y1 where
    y1: "add_at (snd BB) a a (- Kx) = Inr Y1" "shifted X1 Y1 Dm" by blast
  from add_at_shifted [OF 3 n1(2)] obtain N2 where
    n2: "add_at N1 b a K = Inr N2" "shifted M2 N2 D" by blast
  from add_at_shifted [OF 4 y1(2)] obtain Y2 where
    y2: "add_at Y1 b a Kx = Inr Y2" "shifted X2 Y2 Dm" by blast
  have "add_loss_gain BB a b K Kx = Inr (N2, Y2)"
    by (simp add: add_loss_gain_def n1 y1 n2 y2 ebind_def)
  moreover have "shifted2 AA' (N2, Y2) D Dm"
    by (simp add: shifted2_def 5 n2 y2)
  ultimately show ?thesis by blast
qed


text \<open>A step whose success and additions do not depend on the entries it is given.\<close>

definition equivariant :: "(mat \<times> mat \<Rightarrow> error + mat \<times> mat) \<Rightarrow> bool" where
  "equivariant f \<longleftrightarrow>
     (\<forall>AA AA' BB D Dm. f AA = Inr AA' \<longrightarrow> shifted2 AA BB D Dm \<longrightarrow>
        (\<exists>BB'. f BB = Inr BB' \<and> shifted2 AA' BB' D Dm))"

lemma equivariantI:
  assumes "\<And>AA AA' BB D Dm. f AA = Inr AA' \<Longrightarrow> shifted2 AA BB D Dm \<Longrightarrow>
     \<exists>BB'. f BB = Inr BB' \<and> shifted2 AA' BB' D Dm"
  shows "equivariant f"
  unfolding equivariant_def using assms by blast

lemma equivariantD:
  assumes "equivariant f" and "f AA = Inr AA'" and "shifted2 AA BB D Dm"
  shows "\<exists>BB'. f BB = Inr BB' \<and> shifted2 AA' BB' D Dm"
  using assms unfolding equivariant_def by blast

lemma equivariant_add_loss_gain: "equivariant (\<lambda>MM. add_loss_gain MM a b K Kx)"
  by (rule equivariantI) (rule add_loss_gain_shifted)

lemma equivariant_bind:
  assumes "equivariant f" and "equivariant g"
  shows "equivariant (\<lambda>MM. ebind (f MM) g)"
proof (rule equivariantI)
  fix AA AA' BB D Dm
  assume a: "ebind (f AA) g = Inr AA'" and s: "shifted2 AA BB D Dm"
  from a obtain A1 where 1: "f AA = Inr A1" and 2: "g A1 = Inr AA'"
    unfolding ebind_Inr_iff by blast
  from equivariantD [OF assms(1) 1 s] obtain B1 where
    b1: "f BB = Inr B1" "shifted2 A1 B1 D Dm" by blast
  from equivariantD [OF assms(2) 2 b1(2)] obtain B2 where
    b2: "g B1 = Inr B2" "shifted2 AA' B2 D Dm" by blast
  show "\<exists>BB'. ebind (f BB) g = Inr BB' \<and> shifted2 AA' BB' D Dm"
    using b1 b2 by (auto simp: ebind_def)
qed

lemma equivariant_const_bind:
  assumes "\<And>x. equivariant (f x)"
  shows "equivariant (\<lambda>MM. ebind m (\<lambda>x. f x MM))"
proof (cases m)
  case (Inl err)
  then show ?thesis by (simp add: equivariant_def ebind_def)
next
  case (Inr x)
  then show ?thesis using assms [of x] by (simp add: ebind_def)
qed

lemma equivariant_Inr: "equivariant Inr"
  by (simp add: equivariant_def)

lemma equivariant_efold:
  assumes "\<And>x. equivariant (f x)"
  shows "equivariant (efold f xs)"
proof (induction xs)
  case Nil
  have "efold f [] = Inr" by (simp add: fun_eq_iff)
  then show ?case by (simp add: equivariant_Inr)
next
  case (Cons x xs)
  have "efold f (x # xs) = (\<lambda>MM. ebind (f x MM) (efold f xs))" by (simp add: fun_eq_iff)
  then show ?case using equivariant_bind [OF assms [of x] Cons] by simp
qed

lemma equivariant_if: "equivariant f \<Longrightarrow> equivariant g \<Longrightarrow> equivariant (if b then f else g)"
  by simp

lemma equivariant_ion_step: "equivariant (ion_step e rn f0 f0m i tr)"
proof -
  have "ion_step e rn f0 f0m i tr =
    (\<lambda>MM. ebind (nth_err f0 i) (\<lambda>f0_i. ebind (nth_err f0m i) (\<lambda>f0_max_i.
       ebind (add_loss_gain MM (from_loc tr) (to_loc tr)
                (collrate_const rn * ion_rate e f0_i (scaled (vgrid rn) (v_th rn)) (scaled (dvc rn) (v_th rn)) (sigma tr))
                (collrate_const rn * ion_rate e f0_max_i (scaled (vgrid rn) (v_th rn)) (scaled (dvc rn) (v_th rn)) (sigma tr)))
         (\<lambda>MM1. ebind (py_truediv (statw (to_state tr)) (statw (from_state tr))) (\<lambda>statw_ratio.
            ebind (nth_err (DENSITY rn) i) (\<lambda>ne_i. ebind (nth_err (TEMPERATURE rn) i) (\<lambda>Te_i.
              add_loss_gain MM1 (to_loc tr) (from_loc tr)
                (ne_i * collrate_const rn * tbrec_norm e rn *
                   tbrec_rate e f0_i Te_i (scaled (vgrid rn) (v_th rn)) (scaled (dvc rn) (v_th rn)) (thresh tr / T_norm rn) statw_ratio (sigma tr))
                (ne_i * collrate_const rn * tbrec_norm e rn *
                   tbrec_rate e f0_max_i Te_i (scaled (vgrid rn) (v_th rn)) (scaled (dvc rn) (v_th rn)) (thresh tr / T_norm rn) statw_ratio (sigma tr)))))))))"
    by (simp add: ion_step_def Let_def fun_eq_iff)
  then show ?thesis
    by (simp only:)
      (intro equivariant_const_bind equivariant_bind equivariant_add_loss_gain)
qed


lemma equivariant_ex_step: "equivariant (ex_step e rn f0 f0m i tr)"
proof -
  have "ex_step e rn f0 f0m i tr =
    (\<lambda>MM. ebind (nth_err f0 i) (\<lambda>f0_i. ebind (nth_err f0m i) (\<lambda>f0_max_i.
       ebind (add_loss_gain MM (from_loc tr) (to_loc tr)
                (collrate_const rn * ex_rate e f0_i (scaled (vgrid rn) (v_th rn)) (scaled (dvc rn) (v_th rn)) (sigma tr))
                (collrate_const rn * ex_rate e f0_max_i (scaled (vgrid rn) (v_th rn)) (scaled (dvc rn) (v_th rn)) (sigma tr)))
         (\<lambda>MM1. ebind (py_truediv (statw (from_state tr)) (statw (to_state tr))) (\<lambda>statw_ratio.
              add_loss_gain MM1 (to_loc tr) (from_loc tr)
                (collrate_const rn *
                   deex_rate e f0_i (scaled (vgrid rn) (v_th rn)) (scaled (dvc rn) (v_th rn)) (thresh tr / T_norm rn) statw_ratio (sigma tr))
                (collrate_const rn *
                   deex_rate e f0_max_i (scaled (vgrid rn) (v_th rn)) (scaled (dvc rn) (v_th rn)) (thresh tr / T_norm rn) statw_ratio (sigma tr)))))))"
    by (simp add: ex_step_def Let_def fun_eq_iff)
  then show ?thesis
    by (simp only:)
      (intro equivariant_const_bind equivariant_bind equivariant_add_loss_gain)
qed

lemma equivariant_spontem_step: "equivariant (spontem_step tr)"
proof -
  have "spontem_step tr =
      (\<lambda>MM. add_loss_gain MM (from_loc tr) (to_loc tr) (spontem_rate tr) (spontem_rate tr))"
    by (simp add: spontem_step_def fun_eq_iff)
  then show ?thesis by (simp only: equivariant_add_loss_gain)
qed

text \<open>
  What the claim says one radiative recombination adds to the entry \<open>(r, c)\<close> of the
  rate matrices of cell \<open>i\<close>: the electron density times the clamped coefficient, as a
  loss on the diagonal of the column of its origin and as a gain in the row of its
  target.
\<close>

definition clamped_radrec_entry :: "skrun \<Rightarrow> nat \<Rightarrow> transition \<Rightarrow> nat \<Rightarrow> nat \<Rightarrow> real" where
  "clamped_radrec_entry rn i t r c =
     (if c = from_loc t
      then (if r = to_loc t
            then DENSITY rn ! i * max (radrec_interp t (TEMPERATURE rn ! i)) 0 else 0) -
           (if r = from_loc t
            then DENSITY rn ! i * max (radrec_interp t (TEMPERATURE rn ! i)) 0 else 0)
      else 0)"

lemma radrec_step_shifted:
  assumes "radrec_step rn i t MM = Inr MM'"
  shows "shifted2 MM' MM (clamped_radrec_entry rn i t) (clamped_radrec_entry rn i t)"
proof -
  from assms obtain Te_i ne_i where
    T: "nth_err (TEMPERATURE rn) i = Inr Te_i" and n: "nth_err (DENSITY rn) i = Inr ne_i" and
    a: "add_loss_gain MM (from_loc t) (to_loc t) (ne_i * alpha_radrec t Te_i)
          (ne_i * alpha_radrec t Te_i) = Inr MM'"
    unfolding radrec_step_def ebind_Inr_iff by blast
  from T n have v: "Te_i = TEMPERATURE rn ! i" "ne_i = DENSITY rn ! i"
    by (auto simp: nth_err_def split: if_splits)
  have "loss_gain (from_loc t) (to_loc t) (ne_i * alpha_radrec t Te_i) = clamped_radrec_entry rn i t"
    by (simp add: loss_gain_def clamped_radrec_entry_def alpha_radrec_def v fun_eq_iff)
  with add_loss_gain_shifted_self [OF a] show ?thesis by simp
qed

lemma shifted2_trans:
  "shifted2 A B D Dm \<Longrightarrow> shifted2 B C E Em \<Longrightarrow>
   shifted2 A C (\<lambda>r c. E r c + D r c) (\<lambda>r c. Em r c + Dm r c)"
  unfolding shifted2_def by (blast intro: shifted_trans)

lemma radrec_loop_shifted:
  "efold (radrec_step rn i) ts MM = Inr MM' \<Longrightarrow>
   shifted2 MM' MM (\<lambda>r c. \<Sum>t\<leftarrow>ts. clamped_radrec_entry rn i t r c)
                   (\<lambda>r c. \<Sum>t\<leftarrow>ts. clamped_radrec_entry rn i t r c)"
proof (induction ts arbitrary: MM)
  case Nil
  then show ?case by (simp add: shifted2_def shifted_refl)
next
  case (Cons t ts)
  from Cons.prems obtain M1 where 1: "radrec_step rn i t MM = Inr M1"
    and 2: "efold (radrec_step rn i) ts M1 = Inr MM'"
    by (auto simp: ebind_Inr_iff)
  from shifted2_trans [OF Cons.IH [OF 2] radrec_step_shifted [OF 1]]
  show ?case by simp
qed


text \<open>The same run with \<open>input.RAD_REC\<close> switched off.\<close>

definition without_radrec :: "env \<Rightarrow> env" where
  "without_radrec e = e\<lparr>inp := (inp e)\<lparr>RAD_REC := False\<rparr>\<rparr>"

lemma without_radrec_steps:
  "ion_step (without_radrec e) = ion_step e" "ex_step (without_radrec e) = ex_step e"
  by (simp_all add: without_radrec_def ion_step_def ex_step_def tbrec_norm_def fun_eq_iff)

lemma cell_rates_radrec:
  assumes c: "cell_rates e self f0 f0m i = Inr MM" and on: "RAD_REC (inp e)"
  shows "\<exists>MM0. cell_rates (without_radrec e) self f0 f0m i = Inr MM0 \<and>
     shifted2 MM MM0
       (\<lambda>r c. \<Sum>t\<leftarrow>radrec_transitions self. clamped_radrec_entry (run self) i t r c)
       (\<lambda>r c. \<Sum>t\<leftarrow>radrec_transitions self. clamped_radrec_entry (run self) i t r c)"
proof -
  let ?Z = "(zeros (tot_states self) (tot_states self), zeros (tot_states self) (tot_states self))"
  let ?R = "\<lambda>r c. \<Sum>t\<leftarrow>radrec_transitions self. clamped_radrec_entry (run self) i t r c"
  let ?ex = "if COLL_EX_DEEX (inp e)
             then efold (ex_step e (run self) f0 f0m i) (ex_transitions self) else Inr"
  let ?sp = "if SPONT_EM (inp e) then efold spontem_step (spontem_transitions self) else Inr"
  let ?ion = "if COLL_ION_REC (inp e)
              then efold (ion_step e (run self) f0 f0m i) (iz_transitions self) ?Z else Inr ?Z"
  have cr: "cell_rates e' self f0 f0m i =
      ebind (if COLL_ION_REC (inp e')
             then efold (ion_step e' (run self) f0 f0m i) (iz_transitions self) ?Z else Inr ?Z)
        (\<lambda>MM1. ebind ((if RAD_REC (inp e')
                         then efold (radrec_step (run self) i) (radrec_transitions self)
                         else Inr) MM1)
        (\<lambda>MM2. ebind ((if COLL_EX_DEEX (inp e')
                         then efold (ex_step e' (run self) f0 f0m i) (ex_transitions self)
                         else Inr) MM2)
                  (if SPONT_EM (inp e') then efold spontem_step (spontem_transitions self)
                   else Inr)))" for e'
    by (simp add: cell_rates_def Let_def)
  from c obtain MM1 MM2 MM3 where
    1: "?ion = Inr MM1" and
    2: "efold (radrec_step (run self) i) (radrec_transitions self) MM1 = Inr MM2" and
    3: "?ex MM2 = Inr MM3" and
    4: "?sp MM3 = Inr MM"
    unfolding cr ebind_Inr_iff using on by auto
  have eq_ex: "equivariant ?ex"
    by (simp add: equivariant_efold equivariant_ex_step equivariant_Inr)
  have eq_sp: "equivariant ?sp"
    by (simp add: equivariant_efold equivariant_spontem_step equivariant_Inr)
  note s2 = radrec_loop_shifted [OF 2]
  from equivariantD [OF eq_ex 3 s2] obtain N3 where
    n3: "?ex MM1 = Inr N3" "shifted2 MM3 N3 ?R ?R" by blast
  from equivariantD [OF eq_sp 4 n3(2)] obtain N4 where
    n4: "?sp N3 = Inr N4" "shifted2 MM N4 ?R ?R" by blast
  have flags: "COLL_ION_REC (inp (without_radrec e)) = COLL_ION_REC (inp e)"
    "RAD_REC (inp (without_radrec e)) = False"
    "COLL_EX_DEEX (inp (without_radrec e)) = COLL_EX_DEEX (inp e)"
    "SPONT_EM (inp (without_radrec e)) = SPONT_EM (inp e)"
    by (simp_all add: without_radrec_def)
  have "cell_rates (without_radrec e) self f0 f0m i = Inr N4"
    unfolding cr flags without_radrec_steps
    by (simp add: 1 n3(1) n4(1) ebind_def)
  with n4(2) show ?thesis by blast
qed


lemma build_cells_at:
  assumes "build_rate_matrices e self = Inr s" and "i < num_x (run self)"
  shows "\<exists>f0m. get_maxwellians e (num_x (run self)) (DENSITY (run self)) (TEMPERATURE (run self))
                 (vgrid (run self)) (v_th (run self)) = Inr f0m \<and>
     cell_rates e self (transpose (DIST_F0 (run self))) f0m i =
       Inr (rate_mat s ! i, rate_mat_max s ! i)"
proof -
  from assms(1) obtain f0m cells where
    m: "get_maxwellians e (num_x (run self)) (DENSITY (run self)) (TEMPERATURE (run self))
          (vgrid (run self)) (v_th (run self)) = Inr f0m" and
    c: "emap (build_cell e self (transpose (DIST_F0 (run self))) f0m) [0..<num_x (run self)] = Inr cells"
    and s: "s = self\<lparr>op_mat := map (fst \<circ> snd) cells, rate_mat := map (fst \<circ> fst) cells,
                  op_mat_max := map (snd \<circ> snd) cells, rate_mat_max := map (snd \<circ> fst) cells\<rparr>"
    unfolding build_rate_matrices_def Let_def ebind_Inr_iff by auto
  from emap_nth [OF c] assms(2) have
    len: "i < length cells" and
    bc: "build_cell e self (transpose (DIST_F0 (run self))) f0m i = Inr (cells ! i)"
    by auto
  from bc obtain MM op opm where
    1: "cell_rates e self (transpose (DIST_F0 (run self))) f0m i = Inr MM" and
    2: "inv_err e (be_operator (DELTA_T (inp e)) (tot_states self) (fst MM)) = Inr op" and
    3: "inv_err e (be_operator (DELTA_T (inp e)) (tot_states self) (snd MM)) = Inr opm" and
    4: "cells ! i = (MM, (op, opm))"
    unfolding build_cell_def ebind_Inr_iff by auto
  have "rate_mat s ! i = fst MM" "rate_mat_max s ! i = snd MM"
    using len by (simp_all add: s 4)
  with 1 m show ?thesis by auto
qed

text \<open>
  What the claim says one radiative recombination adds to the radiated power of cell
  \<open>i\<close>, for the densities \<open>dn\<close>: the energy of the transition times the clamped
  coefficient, the electron density and the density of the recombining state.
\<close>

definition clamped_radrec_power :: "env \<Rightarrow> impurity \<Rightarrow> vec list \<Rightarrow> nat \<Rightarrow> transition \<Rightarrow> real" where
  "clamped_radrec_power e self dn i t =
     (case get_radrec_E self t of
        Inl _ \<Rightarrow> 0
      | Inr E \<Rightarrow> E * el_charge e * n_norm (run self) *
                  max (radrec_interp t (TEMPERATURE (run self) ! i)) 0 *
                  DENSITY (run self) ! i * dn ! i ! from_loc t / t_norm (run self))"

lemma nth_err_Inr: "nth_err xs i = Inr x \<longleftrightarrow> i < length xs \<and> x = xs ! i"
  by (auto simp: nth_err_def)

lemma radrec_E_term_Inr:
  assumes "radrec_E_term e self i t acc = Inr acc'"
  shows "(\<exists>E. get_radrec_E self t = Inr E)"
    and "fst acc' = fst acc + clamped_radrec_power e self (dens self) i t"
    and "snd acc' = snd acc + clamped_radrec_power e self (dens_max self) i t"
  using assms
  unfolding radrec_E_term_def ebind_Inr_iff Let_def nth_err_Inr clamped_radrec_power_def
    alpha_radrec_def
  by auto

lemma radrec_E_loop:
  "efold (radrec_E_term e self i) ts acc = Inr acc' \<Longrightarrow>
   (\<forall>t\<in>set ts. \<exists>E. get_radrec_E self t = Inr E) \<and>
   fst acc' = fst acc + (\<Sum>t\<leftarrow>ts. clamped_radrec_power e self (dens self) i t) \<and>
   snd acc' = snd acc + (\<Sum>t\<leftarrow>ts. clamped_radrec_power e self (dens_max self) i t)"
proof (induction ts arbitrary: acc)
  case Nil
  then show ?case by simp
next
  case (Cons t ts)
  from Cons.prems obtain a1 where 1: "radrec_E_term e self i t acc = Inr a1"
    and 2: "efold (radrec_E_term e self i) ts a1 = Inr acc'"
    by (auto simp: ebind_Inr_iff)
  from Cons.IH [OF 2] radrec_E_term_Inr [OF 1] show ?case by simp
qed

lemma get_radrec_E_rates_cells:
  assumes g: "get_radrec_E_rates e self = Inr (P, Pm)" and on: "RAD_REC (inp e)"
    and k: "k < num_x (run self)"
  shows "(\<forall>t\<in>set (radrec_transitions self). \<exists>E. get_radrec_E self t = Inr E)"
    and "P ! k = (\<Sum>t\<leftarrow>radrec_transitions self. clamped_radrec_power e self (dens self) k t) *
                   (1 / 1000000)"
    and "Pm ! k = (\<Sum>t\<leftarrow>radrec_transitions self. clamped_radrec_power e self (dens_max self) k t) *
                   (1 / 1000000)"
proof -
  from g on obtain rs where
    rs: "emap (\<lambda>i. efold (radrec_E_term e self i) (radrec_transitions self) (0, 0))
           [0..<num_x (run self)] = Inr rs"
    and P: "P = map (\<lambda>r. fst r * (1 / 1000000)) rs" "Pm = map (\<lambda>r. snd r * (1 / 1000000)) rs"
    unfolding get_radrec_E_rates_def ebind_Inr_iff by auto
  from emap_nth [OF rs] k have l: "k < length rs"
    and f: "efold (radrec_E_term e self k) (radrec_transitions self) (0, 0) = Inr (rs ! k)"
    by auto
  note r = radrec_E_loop [OF f]
  from r show "\<forall>t\<in>set (radrec_transitions self). \<exists>E. get_radrec_E self t = Inr E" by blast
  from r l show "P ! k = (\<Sum>t\<leftarrow>radrec_transitions self. clamped_radrec_power e self (dens self) k t) *
                   (1 / 1000000)"
    by (simp add: P)
  from r l show "Pm ! k = (\<Sum>t\<leftarrow>radrec_transitions self. clamped_radrec_power e self (dens_max self) k t) *
                   (1 / 1000000)"
    by (simp add: P)
qed

lemma add_loss_gain_succeeds:
  "(\<exists>MM'. add_loss_gain MM (from_loc t) (to_loc t) K Kx = Inr MM') \<longleftrightarrow>
     locs_in_range t (fst MM) \<and> locs_in_range t (snd MM)"
  unfolding add_loss_gain_def ebind_Inr_iff add_at_Inr locs_in_range_def
  by (auto simp: nth_list_update split: if_splits)

lemma radrec_step_succeeds:
  "(\<exists>MM'. radrec_step rn i t MM = Inr MM') \<longleftrightarrow>
     i < length (TEMPERATURE rn) \<and> i < length (DENSITY rn) \<and>
     locs_in_range t (fst MM) \<and> locs_in_range t (snd MM)"
proof -
  have "(\<exists>MM'. radrec_step rn i t MM = Inr MM') \<longleftrightarrow>
      i < length (TEMPERATURE rn) \<and> i < length (DENSITY rn) \<and>
      (\<exists>MM'. add_loss_gain MM (from_loc t) (to_loc t)
         (DENSITY rn ! i * alpha_radrec t (TEMPERATURE rn ! i))
         (DENSITY rn ! i * alpha_radrec t (TEMPERATURE rn ! i)) = Inr MM')"
    unfolding radrec_step_def ebind_Inr_iff nth_err_Inr by auto
  then show ?thesis by (simp only: add_loss_gain_succeeds)
qed

lemma radrec_E_term_succeeds:
  "(\<exists>acc'. radrec_E_term e self i t acc = Inr acc') \<longleftrightarrow>
     i < length (TEMPERATURE (run self)) \<and> (\<exists>E. get_radrec_E self t = Inr E) \<and>
     i < length (DENSITY (run self)) \<and>
     i < length (dens self) \<and> from_loc t < length (dens self ! i) \<and>
     i < length (dens_max self) \<and> from_loc t < length (dens_max self ! i)"
  unfolding radrec_E_term_def ebind_Inr_iff nth_err_Inr Let_def by auto


lemma cell_rates_shape:
  assumes "cell_rates e self f0 f0m i = Inr MM"
  shows "map length (fst MM) = replicate (tot_states self) (tot_states self)"
    and "map length (snd MM) = replicate (tot_states self) (tot_states self)"
  using cell_rates_same [OF assms] by (simp_all add: same_col_sums_def zeros_shape)

lemma clamped_radrec_entry_nonneg:
  assumes "r \<noteq> c" and "0 \<le> DENSITY rn ! i"
  shows "0 \<le> (\<Sum>t\<leftarrow>ts. clamped_radrec_entry rn i t r c)"
proof (rule sum_list_nonneg)
  fix x assume "x \<in> set (map (\<lambda>t. clamped_radrec_entry rn i t r c) ts)"
  then obtain t where x: "x = clamped_radrec_entry rn i t r c" by auto
  show "0 \<le> x"
    unfolding x clamped_radrec_entry_def using assms by simp
qed

lemma without_radrec_maxwellians:
  "get_maxwellians (without_radrec e) = get_maxwellians e"
  by (simp add: get_maxwellians_def without_radrec_def fun_eq_iff)

lemma radrec_step_unchanged:
  assumes "radrec_interp t (TEMPERATURE rn ! i) \<le> 0" and "radrec_step rn i t MM = Inr MM'"
  shows "MM' = MM"
proof -
  from assms(2) have "\<exists>MM'. radrec_step rn i t MM = Inr MM'" by blast
  then have r: "i < length (TEMPERATURE rn)" "i < length (DENSITY rn)"
    "locs_in_range t (fst MM)" "locs_in_range t (snd MM)"
    unfolding radrec_step_succeeds by simp_all
  have "alpha_radrec t (TEMPERATURE rn ! i) = 0"
    using assms(1) by (simp add: alpha_radrec_def)
  then have "radrec_step rn i t MM = Inr MM"
    using r by (simp add: radrec_step_def ebind_def nth_err_def add_loss_gain_zero)
  with assms(2) show ?thesis by simp
qed

lemma radrec_E_term_unchanged:
  assumes "radrec_interp t (TEMPERATURE (run self) ! i) \<le> 0"
    and "radrec_E_term e self i t acc = Inr acc'"
  shows "acc' = acc"
proof -
  have "clamped_radrec_power e self dn i t = 0" for dn
    using assms(1) by (simp add: clamped_radrec_power_def split: sum.splits)
  with radrec_E_term_Inr(2,3) [OF assms(2)] show ?thesis
    by (simp add: prod_eq_iff)
qed

text \<open>
  Claim C8. Wherever a radiative-recombination rate coefficient is read from the
  temperature interpolant, the value used is the maximum of the interpolated value and
  zero, so it is never negative, and a negative interpolated value is no error.

  In the rate matrices: when the builder returns with radiative recombination enabled,
  the matrices of every cell are those the builder computes with radiative
  recombination switched off, plus, for every radiative recombination, the electron
  density times \<open>max(interpolant(Te[i]), 0)\<close> as a loss on the diagonal of the column of its
  origin and as a gain in the row of its target; with a non-negative electron density
  no entry off the diagonal is lowered. In the radiated power: every entry that
  \<open>get_radrec_E_rates\<close> returns is \<open>1e-6\<close> times the sum, over the radiative
  recombinations, of the energy times \<open>n_norm\<close>, \<open>max(interpolant(Te[i]), 0)\<close>, the
  electron density and the density of the recombining state, over \<open>t_norm\<close> (taken
  non-zero: the quotient is one of real numbers).

  No error: one transition's update of the matrices raises exactly when an index is
  out of range, and its term of the radiated power exactly when one of its lookups
  fails, whatever the interpolant returns; where the interpolant is not positive the
  update leaves the matrices as they are and the term adds nothing.
\<close>

theorem radrec_rate_clamped:
  assumes "build_rate_matrices e self = Inr s" and "RAD_REC (inp e)" and "i < num_x (run self)"
    and "get_radrec_E_rates e d = Inr (P, Pm)" and "k < num_x (run d)"
    and "t_norm (run d) \<noteq> 0"
  shows
    "(\<exists>f0m MM0.
        get_maxwellians e (num_x (run self)) (DENSITY (run self)) (TEMPERATURE (run self))
          (vgrid (run self)) (v_th (run self)) = Inr f0m \<and>
        cell_rates (without_radrec e) self (transpose (DIST_F0 (run self))) f0m i = Inr MM0 \<and>
        (\<forall>r<tot_states self. \<forall>c<tot_states self.
           rate_mat s ! i ! r ! c =
             fst MM0 ! r ! c + (\<Sum>t\<leftarrow>radrec_transitions self. clamped_radrec_entry (run self) i t r c) \<and>
           rate_mat_max s ! i ! r ! c =
             snd MM0 ! r ! c + (\<Sum>t\<leftarrow>radrec_transitions self. clamped_radrec_entry (run self) i t r c) \<and>
           (r \<noteq> c \<and> 0 \<le> DENSITY (run self) ! i \<longrightarrow>
              fst MM0 ! r ! c \<le> rate_mat s ! i ! r ! c \<and>
              snd MM0 ! r ! c \<le> rate_mat_max s ! i ! r ! c))) \<and>
     (\<forall>s0. build_rate_matrices (without_radrec e) self = Inr s0 \<longrightarrow>
        (\<forall>r<tot_states self. \<forall>c<tot_states self.
           rate_mat s ! i ! r ! c =
             rate_mat s0 ! i ! r ! c +
             (\<Sum>t\<leftarrow>radrec_transitions self. clamped_radrec_entry (run self) i t r c) \<and>
           rate_mat_max s ! i ! r ! c =
             rate_mat_max s0 ! i ! r ! c +
             (\<Sum>t\<leftarrow>radrec_transitions self. clamped_radrec_entry (run self) i t r c))) \<and>
     P ! k = (\<Sum>t\<leftarrow>radrec_transitions d. clamped_radrec_power e d (dens d) k t) * (1 / 1000000) \<and>
     Pm ! k = (\<Sum>t\<leftarrow>radrec_transitions d. clamped_radrec_power e d (dens_max d) k t) * (1 / 1000000) \<and>
     ((\<exists>MM'. radrec_step (run self) i t MM = Inr MM') \<longleftrightarrow>
        i < length (TEMPERATURE (run self)) \<and> i < length (DENSITY (run self)) \<and>
        locs_in_range t (fst MM) \<and> locs_in_range t (snd MM)) \<and>
     ((\<exists>acc'. radrec_E_term e d k t acc = Inr acc') \<longleftrightarrow>
        k < length (TEMPERATURE (run d)) \<and> (\<exists>E. get_radrec_E d t = Inr E) \<and>
        k < length (DENSITY (run d)) \<and>
        k < length (dens d) \<and> from_loc t < length (dens d ! k) \<and>
        k < length (dens_max d) \<and> from_loc t < length (dens_max d ! k)) \<and>
     (radrec_interp t (TEMPERATURE (run self) ! i) \<le> 0 \<and>
      radrec_step (run self) i t MM = Inr MM' \<longrightarrow> MM' = MM) \<and>
     (radrec_interp t (TEMPERATURE (run d) ! k) \<le> 0 \<and>
      radrec_E_term e d k t acc = Inr acc' \<longrightarrow> acc' = acc)"
proof -
  let ?n = "tot_states self"
  let ?R = "\<lambda>r c. \<Sum>t\<leftarrow>radrec_transitions self. clamped_radrec_entry (run self) i t r c"
  from build_cells_at [OF assms(1,3)] obtain f0m where
    m: "get_maxwellians e (num_x (run self)) (DENSITY (run self)) (TEMPERATURE (run self))
          (vgrid (run self)) (v_th (run self)) = Inr f0m" and
    c: "cell_rates e self (transpose (DIST_F0 (run self))) f0m i =
          Inr (rate_mat s ! i, rate_mat_max s ! i)"
    by blast
  from cell_rates_radrec [OF c assms(2)] obtain MM0 where
    c0: "cell_rates (without_radrec e) self (transpose (DIST_F0 (run self))) f0m i = Inr MM0" and
    sh: "shifted2 (rate_mat s ! i, rate_mat_max s ! i) MM0 ?R ?R"
    by blast
  note shape = shape_square(1) [OF cell_rates_shape(1) [OF c]]
    shape_square(1) [OF cell_rates_shape(2) [OF c]]
  have rows: "length (rate_mat s ! i ! r) = ?n" "length (rate_mat_max s ! i ! r) = ?n"
    if "r < ?n" for r
  proof -
    have "map length (rate_mat s ! i) ! r = ?n" "map length (rate_mat_max s ! i) ! r = ?n"
      using that cell_rates_shape [OF c] by simp_all
    then show "length (rate_mat s ! i ! r) = ?n" "length (rate_mat_max s ! i ! r) = ?n"
      using that shape by simp_all
  qed
  have ent: "rate_mat s ! i ! r ! c = fst MM0 ! r ! c + ?R r c \<and>
      rate_mat_max s ! i ! r ! c = snd MM0 ! r ! c + ?R r c"
    if "r < ?n" "c < ?n" for r c
    using sh that shape rows [OF that(1)] unfolding shifted2_def shifted_def fst_conv snd_conv
    by simp
  have mono: "fst MM0 ! r ! c \<le> rate_mat s ! i ! r ! c \<and>
      snd MM0 ! r ! c \<le> rate_mat_max s ! i ! r ! c"
    if "r < ?n" "c < ?n" "r \<noteq> c" "0 \<le> DENSITY (run self) ! i" for r c
    using ent [OF that(1,2)] clamped_radrec_entry_nonneg [OF that(3,4), of "radrec_transitions self"]
    by simp
  have one: "\<exists>f0m MM0.
        get_maxwellians e (num_x (run self)) (DENSITY (run self)) (TEMPERATURE (run self))
          (vgrid (run self)) (v_th (run self)) = Inr f0m \<and>
        cell_rates (without_radrec e) self (transpose (DIST_F0 (run self))) f0m i = Inr MM0 \<and>
        (\<forall>r<tot_states self. \<forall>c<tot_states self.
           rate_mat s ! i ! r ! c = fst MM0 ! r ! c + ?R r c \<and>
           rate_mat_max s ! i ! r ! c = snd MM0 ! r ! c + ?R r c \<and>
           (r \<noteq> c \<and> 0 \<le> DENSITY (run self) ! i \<longrightarrow>
              fst MM0 ! r ! c \<le> rate_mat s ! i ! r ! c \<and>
              snd MM0 ! r ! c \<le> rate_mat_max s ! i ! r ! c))"
    using m c0 ent mono by blast
  have off: "\<forall>s0. build_rate_matrices (without_radrec e) self = Inr s0 \<longrightarrow>
        (\<forall>r<tot_states self. \<forall>c<tot_states self.
           rate_mat s ! i ! r ! c = rate_mat s0 ! i ! r ! c + ?R r c \<and>
           rate_mat_max s ! i ! r ! c = rate_mat_max s0 ! i ! r ! c + ?R r c)"
  proof (intro allI impI)
    fix s0 r c
    assume b0: "build_rate_matrices (without_radrec e) self = Inr s0"
      and r: "r < tot_states self" and c: "c < tot_states self"
    from build_cells_at [OF b0 assms(3)] have
      "cell_rates (without_radrec e) self (transpose (DIST_F0 (run self))) f0m i =
         Inr (rate_mat s0 ! i, rate_mat_max s0 ! i)"
      unfolding without_radrec_maxwellians m by simp
    with c0 have "MM0 = (rate_mat s0 ! i, rate_mat_max s0 ! i)" by simp
    with ent [OF r c]
    show "rate_mat s ! i ! r ! c = rate_mat s0 ! i ! r ! c + ?R r c \<and>
        rate_mat_max s ! i ! r ! c = rate_mat_max s0 ! i ! r ! c + ?R r c"
      by simp
  qed
  note two = get_radrec_E_rates_cells(2,3) [OF assms(4) assms(2) assms(5)]
  have three: "radrec_interp t (TEMPERATURE (run self) ! i) \<le> 0 \<and>
      radrec_step (run self) i t MM = Inr MM' \<longrightarrow> MM' = MM"
    using radrec_step_unchanged by blast
  have four: "radrec_interp t (TEMPERATURE (run d) ! k) \<le> 0 \<and>
      radrec_E_term e d k t acc = Inr acc' \<longrightarrow> acc' = acc"
    using radrec_E_term_unchanged by blast
  from one off two radrec_step_succeeds [of "run self" i t MM]
    radrec_E_term_succeeds [of e d k t acc] three four
  show ?thesis by (intro conjI)
qed


text \<open>
  An instance with two radiative recombinations from the ion to the neutral in one
  cell at temperature 1: the interpolant of the first gives \<open>-1\<close> there, that of the
  second gives 2.
\<close>

definition ex_radrec_up :: transition where
  "ex_radrec_up = ex_radrec\<lparr>radrec_interp := (\<lambda>T. T + 1)\<rparr>"

definition ex_rr :: impurity where
  "ex_rr = ex_loaded\<lparr>radrec_transitions := [ex_radrec, ex_radrec_up],
                      dens := [[1, 2]], dens_max := [[2, 1]]\<rparr>"

definition ex_rr_built :: impurity where
  "ex_rr_built = ex_rr\<lparr>op_mat := [[[4 / 5, 2 / 5], [1 / 5, 3 / 5]]],
      rate_mat := [[[- 1, 2], [1, - 2]]],
      op_mat_max := [[[4 / 5, 2 / 5], [1 / 5, 3 / 5]]],
      rate_mat_max := [[[- 1, 2], [1, - 2]]]\<rparr>"

lemma ex_rr_build: "build_rate_matrices ex_env ex_rr = Inr ex_rr_built"
  by (simp add: build_rate_matrices_def ex_rr_def ex_radrec_up_def ex_radrec_def ex_loaded_def
      ex_imp_def ex_run_def ex_env_def ex_input_def
      get_maxwellians_def ebind_def nth_err_def build_cell_def cell_rates_def ion_step_def radrec_step_def
      alpha_radrec_def ex_mk_transition_def ex_state0_def ex_state1_def scaled_def collrate_const_def
      add_loss_gain_def add_at_def zeros_def py_truediv_def inv_err_def be_operator_def identity_def
      ex_rr_built_def numeral_2_eq_2)

text \<open>What the builder returns on the instance with radiative recombination switched off.\<close>

definition ex_rr_built_off :: impurity where
  "ex_rr_built_off = ex_rr\<lparr>op_mat := [[[2 / 3, 0], [1 / 3, 1]]],
      rate_mat := [[[- 1, 0], [1, 0]]],
      op_mat_max := [[[2 / 3, 0], [1 / 3, 1]]],
      rate_mat_max := [[[- 1, 0], [1, 0]]]\<rparr>"

lemma ex_rr_build_off: "build_rate_matrices (without_radrec ex_env) ex_rr = Inr ex_rr_built_off"
  by (simp add: build_rate_matrices_def without_radrec_def ex_rr_def ex_radrec_up_def ex_radrec_def
      ex_loaded_def ex_imp_def ex_run_def ex_env_def ex_input_def
      get_maxwellians_def ebind_def nth_err_def build_cell_def cell_rates_def ion_step_def
      ex_mk_transition_def ex_state0_def ex_state1_def scaled_def collrate_const_def
      add_loss_gain_def add_at_def zeros_def py_truediv_def inv_err_def be_operator_def identity_def
      ex_rr_built_off_def numeral_2_eq_2)

lemma ex_rr_maxwellians:
  "get_maxwellians ex_env (num_x (run ex_rr)) (DENSITY (run ex_rr)) (TEMPERATURE (run ex_rr))
     (vgrid (run ex_rr)) (v_th (run ex_rr)) = Inr [[1]]"
  by (simp add: get_maxwellians_def ex_rr_def ex_loaded_def ex_imp_def ex_run_def ex_env_def
      ebind_def nth_err_def scaled_def)

lemma ex_rr_without:
  "cell_rates (without_radrec ex_env) ex_rr (transpose (DIST_F0 (run ex_rr))) [[1]] 0 =
     Inr ([[- 1, 0], [1, 0]], [[- 1, 0], [1, 0]])"
  by (simp add: without_radrec_def ex_rr_def ex_radrec_up_def ex_radrec_def ex_loaded_def
      ex_imp_def ex_run_def ex_env_def ex_input_def
      ebind_def nth_err_def cell_rates_def ion_step_def
      ex_mk_transition_def ex_state0_def ex_state1_def scaled_def collrate_const_def
      add_loss_gain_def add_at_def zeros_def py_truediv_def numeral_2_eq_2)

lemma ex_rr_power:
  "get_radrec_E_rates ex_env ex_rr_built = Inr ([27 / 500000], [27 / 1000000])"
  by (simp add: get_radrec_E_rates_def radrec_E_term_def get_radrec_E_def alpha_radrec_def
      ex_rr_built_def ex_rr_def ex_radrec_up_def ex_radrec_def ex_loaded_def
      ex_imp_def ex_run_def ex_env_def ex_input_def ebind_def nth_err_def
      ex_mk_transition_def ex_state0_def ex_state1_def)


theorem radrec_rate_clamped_witness:
  "map (\<lambda>t. radrec_interp t (TEMPERATURE (run ex_rr) ! 0)) (radrec_transitions ex_rr) = [- 1, 2] \<and>
   build_rate_matrices ex_env ex_rr = Inr ex_rr_built \<and>
   cell_rates (without_radrec ex_env) ex_rr (transpose (DIST_F0 (run ex_rr))) [[1]] 0 =
     Inr ([[- 1, 0], [1, 0]], [[- 1, 0], [1, 0]]) \<and>
   (\<Sum>t\<leftarrow>radrec_transitions ex_rr. clamped_radrec_entry (run ex_rr) 0 t 0 1) = 2 \<and>
   rate_mat ex_rr_built ! 0 ! 0 ! 1 = 0 + 2 \<and> rate_mat_max ex_rr_built ! 0 ! 0 ! 1 = 0 + 2 \<and>
   (0::real) \<le> rate_mat ex_rr_built ! 0 ! 0 ! 1 \<and>
   build_rate_matrices (without_radrec ex_env) ex_rr = Inr ex_rr_built_off \<and>
   rate_mat ex_rr_built ! 0 ! 0 ! 1 = rate_mat ex_rr_built_off ! 0 ! 0 ! 1 + 2 \<and>
   rate_mat_max ex_rr_built ! 0 ! 0 ! 1 = rate_mat_max ex_rr_built_off ! 0 ! 0 ! 1 + 2 \<and>
   get_radrec_E_rates ex_env ex_rr_built = Inr ([27 / 500000], [27 / 1000000]) \<and>
   (\<Sum>t\<leftarrow>radrec_transitions ex_rr_built.
      clamped_radrec_power ex_env ex_rr_built (dens ex_rr_built) 0 t) = 54 \<and>
   [27 / 500000] ! 0 = (54::real) * (1 / 1000000) \<and>
   (\<Sum>t\<leftarrow>radrec_transitions ex_rr_built.
      clamped_radrec_power ex_env ex_rr_built (dens_max ex_rr_built) 0 t) = 27 \<and>
   [27 / 1000000] ! 0 = (27::real) * (1 / 1000000) \<and>
   (\<exists>MM'. radrec_step (run ex_rr) 0 ex_radrec (zeros 2 2, zeros 2 2) = Inr MM') \<and>
   (\<exists>acc'. radrec_E_term ex_env ex_rr_built 0 ex_radrec (5, 7) = Inr acc') \<and>
   radrec_step (run ex_rr) 0 ex_radrec (zeros 2 2, zeros 2 2) = Inr (zeros 2 2, zeros 2 2) \<and>
   radrec_E_term ex_env ex_rr_built 0 ex_radrec (5, 7) = Inr (5, 7)"
proof -
  have on: "RAD_REC (inp ex_env)" by (simp add: ex_env_def ex_input_def)
  have i: "0 < num_x (run ex_rr)" "0 < num_x (run ex_rr_built)"
    by (simp_all add: ex_rr_built_def ex_rr_def ex_loaded_def ex_imp_def ex_run_def)
  have tn: "t_norm (run ex_rr_built) \<noteq> 0"
    by (simp add: ex_rr_built_def ex_rr_def ex_loaded_def ex_imp_def ex_run_def)
  have interp: "map (\<lambda>t. radrec_interp t (TEMPERATURE (run ex_rr) ! 0)) (radrec_transitions ex_rr) =
      [- 1, 2]"
    by (simp add: ex_rr_def ex_radrec_up_def ex_radrec_def ex_loaded_def ex_imp_def ex_run_def
        ex_mk_transition_def)
  have sum_entry: "(\<Sum>t\<leftarrow>radrec_transitions ex_rr. clamped_radrec_entry (run ex_rr) 0 t 0 1) = 2"
    by (simp add: clamped_radrec_entry_def ex_rr_def ex_radrec_up_def ex_radrec_def ex_loaded_def
        ex_imp_def ex_run_def ex_mk_transition_def ex_state0_def ex_state1_def)
  have sum_power:
    "(\<Sum>t\<leftarrow>radrec_transitions ex_rr_built.
        clamped_radrec_power ex_env ex_rr_built (dens ex_rr_built) 0 t) = 54"
    "(\<Sum>t\<leftarrow>radrec_transitions ex_rr_built.
        clamped_radrec_power ex_env ex_rr_built (dens_max ex_rr_built) 0 t) = 27"
    by (simp_all add: clamped_radrec_power_def get_radrec_E_def ex_rr_built_def ex_rr_def
        ex_radrec_up_def ex_radrec_def ex_loaded_def ex_imp_def ex_run_def ex_env_def
        ex_mk_transition_def ex_state0_def ex_state1_def)
  have n: "tot_states ex_rr = 2" "DENSITY (run ex_rr) ! 0 = 1"
    by (simp_all add: ex_rr_def ex_loaded_def ex_imp_def ex_run_def)
  have range: "0 < length (TEMPERATURE (run ex_rr))" "0 < length (DENSITY (run ex_rr))"
    "locs_in_range ex_radrec (fst (zeros 2 2, zeros 2 2))"
    "locs_in_range ex_radrec (snd (zeros 2 2, zeros 2 2))"
    by (simp_all add: locs_in_range_def zeros_def ex_radrec_def ex_mk_transition_def ex_state0_def
        ex_state1_def nth_Cons' numeral_2_eq_2 ex_rr_def ex_loaded_def ex_imp_def ex_run_def)
  have lookups: "0 < length (TEMPERATURE (run ex_rr_built))"
    "get_radrec_E ex_rr_built ex_radrec = Inr (27 / 2)"
    "0 < length (DENSITY (run ex_rr_built))"
    "0 < length (dens ex_rr_built)" "from_loc ex_radrec < length (dens ex_rr_built ! 0)"
    "0 < length (dens_max ex_rr_built)" "from_loc ex_radrec < length (dens_max ex_rr_built ! 0)"
    by (simp_all add: get_radrec_E_def ex_rr_built_def ex_rr_def ex_radrec_up_def ex_radrec_def
        ex_loaded_def ex_imp_def ex_run_def ex_mk_transition_def ex_state0_def ex_state1_def)
  note inst = radrec_rate_clamped [OF ex_rr_build on i(1) ex_rr_power i(2) tn,
      where t = ex_radrec and MM = "(zeros 2 2, zeros 2 2)" and acc = "(5, 7)"]
  have neg: "radrec_interp ex_radrec (TEMPERATURE (run ex_rr) ! 0) \<le> 0"
    "radrec_interp ex_radrec (TEMPERATURE (run ex_rr_built) ! 0) \<le> 0"
    by (simp_all add: ex_rr_built_def ex_rr_def ex_radrec_def ex_loaded_def ex_imp_def ex_run_def
        ex_mk_transition_def)
  note matrices = inst [THEN conjunct1]
  note rest = inst [THEN conjunct2]
  note off = rest [THEN conjunct1, rule_format]
  note power = rest [THEN conjunct2, THEN conjunct1]
  note power_max = rest [THEN conjunct2, THEN conjunct2, THEN conjunct1]
  note step_ok = rest [THEN conjunct2, THEN conjunct2, THEN conjunct2, THEN conjunct1]
  note term_ok = rest [THEN conjunct2, THEN conjunct2, THEN conjunct2, THEN conjunct2,
      THEN conjunct1]
  note step_same = rest [THEN conjunct2, THEN conjunct2, THEN conjunct2, THEN conjunct2,
      THEN conjunct2, THEN conjunct1, rule_format]
  note term_same = rest [THEN conjunct2, THEN conjunct2, THEN conjunct2, THEN conjunct2,
      THEN conjunct2, THEN conjunct2, rule_format]
  from matrices obtain f0m MM0 where
    m: "get_maxwellians ex_env (num_x (run ex_rr)) (DENSITY (run ex_rr)) (TEMPERATURE (run ex_rr))
          (vgrid (run ex_rr)) (v_th (run ex_rr)) = Inr f0m" and
    c0: "cell_rates (without_radrec ex_env) ex_rr (transpose (DIST_F0 (run ex_rr))) f0m 0 = Inr MM0" and
    ent: "\<forall>r<tot_states ex_rr. \<forall>c<tot_states ex_rr.
           rate_mat ex_rr_built ! 0 ! r ! c =
             fst MM0 ! r ! c + (\<Sum>t\<leftarrow>radrec_transitions ex_rr. clamped_radrec_entry (run ex_rr) 0 t r c) \<and>
           rate_mat_max ex_rr_built ! 0 ! r ! c =
             snd MM0 ! r ! c + (\<Sum>t\<leftarrow>radrec_transitions ex_rr. clamped_radrec_entry (run ex_rr) 0 t r c) \<and>
           (r \<noteq> c \<and> 0 \<le> DENSITY (run ex_rr) ! 0 \<longrightarrow>
              fst MM0 ! r ! c \<le> rate_mat ex_rr_built ! 0 ! r ! c \<and>
              snd MM0 ! r ! c \<le> rate_mat_max ex_rr_built ! 0 ! r ! c)"
    by blast
  from m have f0m: "f0m = [[1]]" by (simp add: ex_rr_maxwellians)
  from c0 have MM0: "MM0 = ([[- 1, 0], [1, 0]], [[- 1, 0], [1, 0]])"
    by (simp add: f0m ex_rr_without)
  have lt: "0 < tot_states ex_rr" "1 < tot_states ex_rr" by (simp_all add: n)
  have pre: "(0::nat) \<noteq> 1 \<and> 0 \<le> DENSITY (run ex_rr) ! 0" by (simp add: n)
  from ent [rule_format, OF lt] pre have e01: "rate_mat ex_rr_built ! 0 ! 0 ! 1 =
      fst MM0 ! 0 ! 1 + (\<Sum>t\<leftarrow>radrec_transitions ex_rr. clamped_radrec_entry (run ex_rr) 0 t 0 1)"
    "rate_mat_max ex_rr_built ! 0 ! 0 ! 1 =
      snd MM0 ! 0 ! 1 + (\<Sum>t\<leftarrow>radrec_transitions ex_rr. clamped_radrec_entry (run ex_rr) 0 t 0 1)"
    "fst MM0 ! 0 ! 1 \<le> rate_mat ex_rr_built ! 0 ! 0 ! 1"
    by blast+
  have z: "fst MM0 ! 0 ! 1 = 0" "snd MM0 ! 0 ! 1 = 0" by (simp_all add: MM0)
  note a = e01 [unfolded z sum_entry]
  note o = off [OF ex_rr_build_off lt, unfolded sum_entry]
  note p = power [unfolded sum_power] power_max [unfolded sum_power]
  from step_ok range have s1: "\<exists>MM'. radrec_step (run ex_rr) 0 ex_radrec (zeros 2 2, zeros 2 2) = Inr MM'"
    by blast
  from term_ok lookups have s2: "\<exists>acc'. radrec_E_term ex_env ex_rr_built 0 ex_radrec (5, 7) = Inr acc'"
    by blast
  from s1 obtain MM' where
    m': "radrec_step (run ex_rr) 0 ex_radrec (zeros 2 2, zeros 2 2) = Inr MM'" by blast
  from s2 obtain acc' where
    a': "radrec_E_term ex_env ex_rr_built 0 ex_radrec (5, 7) = Inr acc'" by blast
  have "MM' = (zeros 2 2, zeros 2 2)"
    by (rule step_same) (rule conjI [OF neg(1) m'])
  moreover have "acc' = (5, 7)"
    by (rule term_same) (rule conjI [OF neg(2) a'])
  ultimately have u: "radrec_step (run ex_rr) 0 ex_radrec (zeros 2 2, zeros 2 2) = Inr (zeros 2 2, zeros 2 2)"
    "radrec_E_term ex_env ex_rr_built 0 ex_radrec (5, 7) = Inr (5, 7)"
    using m' a' by simp_all
  from interp ex_rr_build c0 [unfolded f0m MM0] sum_entry a ex_rr_build_off
    o [THEN conjunct1] o [THEN conjunct2] ex_rr_power sum_power p s1 s2 u
  show ?thesis by (intro conjI)
qed


section \<open>Time evolution with PETSc, in lockstep over the ranks\<close>

text \<open>
  \<open>solver.evolve\<close> runs on every MPI rank with that rank's block of cells. The linear
  solver is PETSc's KSP, a collaborator: given its configuration, the operator and the
  right-hand side it reports a converged reason (negative on failure), an iteration
  count and the vector it wrote.
\<close>

record ksp_cfg =
  k_type :: string
  k_pc :: "string option"
  k_rtol :: real

record ksp_result =
  k_reason :: int
  k_its :: nat
  k_sol :: vec

type_synonym ksp = "ksp_cfg \<Rightarrow> mat \<Rightarrow> vec \<Rightarrow> ksp_result"

text \<open>The arguments that differ between the ranks, and those all ranks share.\<close>

record rank_args =
  loc_num_x :: nat
  min_x :: nat
  max_x :: nat
  rate_matrix :: mat
  n_init :: "vec list"

record evolve_params =
  p_dt :: real
  p_num_t :: nat
  p_dndt_thresh :: real
  p_ksp_solver :: string
  p_ksp_pc :: "string option"
  p_ksp_tol :: real

text \<open>What a rank holds when it enters the loop.\<close>

record rank_state =
  r_num_states :: nat
  r_loc_num_x :: nat
  r_op :: mat
  r_cfg :: ksp_cfg
  r_old :: vec
  r_new :: vec

text \<open>\<open>n_init[min_x:max_x, :]\<close>: a slice never raises.\<close>

definition local_rows :: "rank_args \<Rightarrow> vec list" where
  "local_rows a = take (max_x a - min_x a) (drop (min_x a) (n_init a))"

text \<open>
  The statements of \<open>evolve\<close> before the loop. PETSc refuses values that do not fill
  the vector and operands of different sizes; a fresh vector is taken to hold zeros.
\<close>

definition rank_setup :: "evolve_params \<Rightarrow> rank_args \<Rightarrow> error + rank_state" where
  "rank_setup P a =
     ebind (nth_err (n_init a) 0) (\<lambda>row0.
       let num_states = length row0;
           N = num_states * loc_num_x a;
           vals = concat (local_rows a)
       in if length vals \<noteq> N then Inl PetscError
          else if \<not> (length (rate_matrix a) = N \<and>
                       list_all (\<lambda>row. length row = N) (rate_matrix a)) then Inl PetscError
          else Inr \<lparr>r_num_states = num_states, r_loc_num_x = loc_num_x a,
                    r_op = be_operator (p_dt P) N (rate_matrix a),
                    r_cfg = \<lparr>k_type = p_ksp_solver P, k_pc = p_ksp_pc P,
                              k_rtol = p_ksp_tol P * sum_list vals\<rparr>,
                    r_old = vals, r_new = replicate N 0\<rparr>)"

text \<open>
  What one rank contributes to a step: its failure flag, its local residual
  \<open>np.max(np.abs(n_old - n_new)) / dt\<close>, its iteration count, and its state with
  \<open>n_old\<close> replaced by \<open>n_new\<close>.
\<close>

record rank_out =
  o_failed :: nat
  o_dndt :: real
  o_its :: nat
  o_state :: rank_state

definition rank_step :: "ksp \<Rightarrow> evolve_params \<Rightarrow> rank_state \<Rightarrow> error + rank_out" where
  "rank_step K P st =
     (let res = K (r_cfg st) (r_op st) (r_old st);
          n_new = k_sol res;
          ksp_failed = (if k_reason res < 0 then 1 else 0)
      in ebind (np_max (map2 (\<lambda>x y. \<bar>x - y\<bar>) (r_old st) n_new)) (\<lambda>m.
           Inr \<lparr>o_failed = ksp_failed, o_dndt = m / p_dt P, o_its = k_its res,
                o_state = st\<lparr>r_old := n_new, r_new := n_new\<rparr>\<rparr>))"

text \<open>
  The gather to rank 0, the reductions there and the broadcast: every rank receives
  the largest local residual and the number of ranks whose solve failed.
\<close>

datatype outcome = Abort | Stop "rank_state list" | Continue real "rank_state list"

definition loop_body ::
  "ksp \<Rightarrow> evolve_params \<Rightarrow> nat \<Rightarrow> real \<Rightarrow> rank_state list \<Rightarrow> error + outcome" where
  "loop_body K P i prev_residual sts =
     ebind (emap (rank_step K P) sts) (\<lambda>outs.
     ebind (np_max (map o_dndt outs)) (\<lambda>dndt_global.
       let exit_flag = sum_list (map o_failed outs);
           sts' = map o_state outs
       in if exit_flag > 0 then Inr Abort
          else if dndt_global > prev_residual \<and> real i / real (p_num_t P) > 1 / 10
            then Inr (Stop sts')
          else if dndt_global < p_dndt_thresh P then Inr (Stop sts')
          else Inr (Continue dndt_global sts')))"

text \<open>
  The loop \<open>for i in range(num_t)\<close> from index list \<open>is\<close> on: \<open>None\<close> when every rank
  returns \<open>None\<close>, otherwise the vector \<open>n_new\<close> of every rank at the exit.
\<close>

fun evolve_loop ::
  "ksp \<Rightarrow> evolve_params \<Rightarrow> nat list \<Rightarrow> real \<Rightarrow> rank_state list \<Rightarrow> error + vec list option" where
  "evolve_loop K P [] prev_residual sts = Inr (Some (map r_new sts))"
| "evolve_loop K P (i # is) prev_residual sts =
     ebind (loop_body K P i prev_residual sts) (\<lambda>out.
       case out of
         Abort \<Rightarrow> Inr None
       | Stop sts' \<Rightarrow> Inr (Some (map r_new sts'))
       | Continue dndt_global sts' \<Rightarrow> evolve_loop K P is dndt_global sts')"

text \<open>\<open>n_solved\<close>: the flat vector as one row per local cell.\<close>

definition unflatten :: "nat \<Rightarrow> nat \<Rightarrow> vec \<Rightarrow> vec list" where
  "unflatten ns nloc v = map (\<lambda>j. map (\<lambda>i. v ! (i + j * ns)) [0..<ns]) [0..<nloc]"

text \<open>
  \<open>solver.evolve\<close> on all ranks: the value each rank returns, in the order of the
  ranks.
\<close>

definition evolve_ranks :: "ksp \<Rightarrow> evolve_params \<Rightarrow> rank_args list \<Rightarrow> error + vec list option list" where
  "evolve_ranks K P ranks =
     ebind (emap (rank_setup P) ranks) (\<lambda>sts.
     ebind (evolve_loop K P [0..<p_num_t P] (10 ^ 20) sts) (\<lambda>res.
       case res of
         None \<Rightarrow> Inr (map (\<lambda>_. None) sts)
       | Some vs \<Rightarrow>
           Inr (map2 (\<lambda>st v. Some (unflatten (r_num_states st) (r_loc_num_x st) v)) sts vs)))"

text \<open>
  The steps \<open>is\<close> all ran on to the next iteration: the residual and the states with
  which the iteration after them starts.
\<close>

fun advance ::
  "ksp \<Rightarrow> evolve_params \<Rightarrow> nat list \<Rightarrow> real \<Rightarrow> rank_state list \<Rightarrow> (real \<times> rank_state list) option" where
  "advance K P [] prev sts = Some (prev, sts)"
| "advance K P (i # is) prev sts =
     (case loop_body K P i prev sts of
        Inr (Continue prev' sts') \<Rightarrow> advance K P is prev' sts'
      | _ \<Rightarrow> None)"




lemma rank_step_Inr:
  assumes "rank_step K P st = Inr out"
  shows "o_failed out = (if k_reason (K (r_cfg st) (r_op st) (r_old st)) < 0 then 1 else 0)"
    and "np_max (map2 (\<lambda>x y. \<bar>x - y\<bar>) (r_old st) (k_sol (K (r_cfg st) (r_op st) (r_old st)))) =
           Inr (o_dndt out * p_dt P) \<or> p_dt P = 0"
    and "o_state out = st\<lparr>r_old := k_sol (K (r_cfg st) (r_op st) (r_old st)),
                          r_new := k_sol (K (r_cfg st) (r_op st) (r_old st))\<rparr>"
    and "\<exists>m. np_max (map2 (\<lambda>x y. \<bar>x - y\<bar>) (r_old st) (k_sol (K (r_cfg st) (r_op st) (r_old st)))) = Inr m \<and>
           o_dndt out = m / p_dt P"
  using assms unfolding rank_step_def Let_def ebind_Inr_iff by auto

lemma advance_evolve_loop:
  "advance K P pre prev sts = Some (prev', sts') \<Longrightarrow>
   evolve_loop K P (pre @ rest) prev sts = evolve_loop K P rest prev' sts'"
proof (induction pre arbitrary: prev sts)
  case Nil
  then show ?case by simp
next
  case (Cons i pre)
  from Cons.prems obtain p1 s1 where 1: "loop_body K P i prev sts = Inr (Continue p1 s1)"
    and 2: "advance K P pre p1 s1 = Some (prev', sts')"
    by (auto split: sum.splits outcome.splits)
  show ?case
    using Cons.IH [OF 2] by (simp add: 1 ebind_def)
qed

lemma upt_split: "i < n \<Longrightarrow> [0..<n] = [0..<i] @ i # [Suc i..<n]"
  by (metis Cons_nth_drop_Suc append_take_drop_id diff_zero length_upt nth_upt plus_nat.add_0
      take_upt drop_upt less_imp_le_nat)

lemma evolve_ranks_at_step:
  assumes "emap (rank_setup P) ranks = Inr sts0"
    and "advance K P [0..<i] (10 ^ 20) sts0 = Some (prev, sts)" and "i < p_num_t P"
    and "loop_body K P i prev sts = Inr out"
  shows "evolve_ranks K P ranks =
     (case out of
        Abort \<Rightarrow> Inr (map (\<lambda>_. None) sts0)
      | Stop sts' \<Rightarrow>
          Inr (map2 (\<lambda>st v. Some (unflatten (r_num_states st) (r_loc_num_x st) v)) sts0 (map r_new sts'))
      | Continue g sts' \<Rightarrow>
          ebind (evolve_loop K P [Suc i..<p_num_t P] g sts') (\<lambda>res.
            case res of
              None \<Rightarrow> Inr (map (\<lambda>_. None) sts0)
            | Some vs \<Rightarrow>
                Inr (map2 (\<lambda>st v. Some (unflatten (r_num_states st) (r_loc_num_x st) v)) sts0 vs)))"
proof -
  have "evolve_loop K P [0..<p_num_t P] (10 ^ 20) sts0 =
      evolve_loop K P (i # [Suc i..<p_num_t P]) prev sts"
    unfolding upt_split [OF assms(3)] by (rule advance_evolve_loop [OF assms(2)])
  then show ?thesis
    by (cases out) (simp_all add: evolve_ranks_def assms(1,4) ebind_def)
qed


lemma emap_length: "emap f xs = Inr ys \<Longrightarrow> length ys = length xs"
  using emap_nth by blast

lemma loop_body_abort:
  assumes outs: "emap (rank_step K P) sts = Inr outs"
    and fail: "\<exists>st\<in>set sts. k_reason (K (r_cfg st) (r_op st) (r_old st)) < 0"
  shows "loop_body K P i prev sts = Inr Abort"
proof -
  from fail obtain k where k: "k < length sts"
    and neg: "k_reason (K (r_cfg (sts ! k)) (r_op (sts ! k)) (r_old (sts ! k))) < 0"
    by (auto simp: in_set_conv_nth)
  from emap_nth [OF outs] k have l: "length outs = length sts"
    and o: "rank_step K P (sts ! k) = Inr (outs ! k)" by auto
  have "o_failed (outs ! k) = 1"
    using rank_step_Inr(1) [OF o] neg by simp
  moreover have "o_failed (outs ! k) \<in> set (map o_failed outs)"
    using k l by (simp add: image_iff) (metis nth_mem)
  ultimately have "1 \<le> sum_list (map o_failed outs)"
    using member_le_sum_list [of "o_failed (outs ! k)" "map o_failed outs"] by simp
  then have pos: "0 < sum_list (map o_failed outs)" by simp
  from k l have "map o_dndt outs \<noteq> []" by auto
  then obtain g where g: "np_max (map o_dndt outs) = Inr g"
    by (cases "map o_dndt outs") auto
  show ?thesis
    using pos by (simp add: loop_body_def outs g ebind_def Let_def)
qed

lemma no_failure_flags:
  assumes outs: "emap (rank_step K P) sts = Inr outs"
    and ok: "\<forall>st\<in>set sts. 0 \<le> k_reason (K (r_cfg st) (r_op st) (r_old st))"
  shows "sum_list (map o_failed outs) = 0"
    and "map r_new (map o_state outs) = map (\<lambda>st. k_sol (K (r_cfg st) (r_op st) (r_old st))) sts"
proof -
  note e = emap_nth [OF outs]
  have each: "o_failed (outs ! k) = 0 \<and>
      r_new (o_state (outs ! k)) = k_sol (K (r_cfg (sts ! k)) (r_op (sts ! k)) (r_old (sts ! k)))"
    if "k < length sts" for k
  proof -
    from e that have o: "rank_step K P (sts ! k) = Inr (outs ! k)" by blast
    from ok that have "0 \<le> k_reason (K (r_cfg (sts ! k)) (r_op (sts ! k)) (r_old (sts ! k)))"
      by simp
    then show ?thesis
      using rank_step_Inr(1) [OF o] rank_step_Inr(3) [OF o] by simp
  qed
  have "\<forall>x\<in>set (map o_failed outs). x = 0"
    using each e by (auto simp: in_set_conv_nth)
  then show "sum_list (map o_failed outs) = 0" by simp
  show "map r_new (map o_state outs) = map (\<lambda>st. k_sol (K (r_cfg st) (r_op st) (r_old st))) sts"
    using each e by (auto intro!: nth_equalityI)
qed

lemma loop_body_divergence:
  assumes outs: "emap (rank_step K P) sts = Inr outs"
    and ok: "\<forall>st\<in>set sts. 0 \<le> k_reason (K (r_cfg st) (r_op st) (r_old st))"
    and g: "np_max (map o_dndt outs) = Inr g" and up: "prev < g"
    and late: "1 / 10 < real i / real (p_num_t P)"
  shows "loop_body K P i prev sts = Inr (Stop (map o_state outs))"
  using up late
  by (simp add: loop_body_def outs g ebind_def Let_def no_failure_flags(1) [OF outs ok])

text \<open>The global residual \<open>dndt_global\<close> of a step that starts from the states \<open>sts\<close>.\<close>

definition step_residual :: "ksp \<Rightarrow> evolve_params \<Rightarrow> rank_state list \<Rightarrow> error + real" where
  "step_residual K P sts = ebind (emap (rank_step K P) sts) (\<lambda>outs. np_max (map o_dndt outs))"

lemma step_residual_Inr:
  "step_residual K P sts = Inr g \<longleftrightarrow>
     (\<exists>outs. emap (rank_step K P) sts = Inr outs \<and> np_max (map o_dndt outs) = Inr g)"
  by (simp add: step_residual_def ebind_Inr_iff)

text \<open>
  Claim C7. A failed linear solve aborts the run on every rank. Here: the run has
  reached step \<open>i\<close>, every rank has computed its local residual, and the solve of some
  rank reports a negative reason. Then the sum of the gathered flags is positive on the
  root, every rank receives it and leaves the loop, and \<open>evolve\<close> returns \<open>None\<close> on
  every rank.
\<close>

theorem solver_failure_aborts_every_rank:
  assumes "emap (rank_setup P) ranks = Inr sts0"
    and "advance K P [0..<i] (10 ^ 20) sts0 = Some (prev, sts)" and "i < p_num_t P"
    and "step_residual K P sts = Inr g"
    and "\<exists>st\<in>set sts. k_reason (K (r_cfg st) (r_op st) (r_old st)) < 0"
  shows "loop_body K P i prev sts = Inr Abort \<and>
         evolve_ranks K P ranks = Inr (replicate (length ranks) None)"
proof -
  from assms(4) obtain outs where outs: "emap (rank_step K P) sts = Inr outs"
    unfolding step_residual_Inr by blast
  have a: "loop_body K P i prev sts = Inr Abort"
    by (rule loop_body_abort [OF outs assms(5)])
  have "map (\<lambda>_. None) sts0 = replicate (length ranks) None"
    using emap_length [OF assms(1)] by (simp add: map_replicate_const)
  with evolve_ranks_at_step [OF assms(1,2,3) a] a show ?thesis by simp
qed

text \<open>
  Claim C6, as amended. If at step \<open>i\<close> no rank's solve failed, the global residual
  exceeds the residual of the previous step (\<open>1e20\<close> before the first) and
  \<open>i / num_t > 0.1\<close>, the loop ends and every rank returns, as a value and without an
  error, the densities its solve computed in that very step, the one whose residual
  rose: the solution of the step's linear system for the densities the step before had
  left in \<open>n_old\<close>. The densities of the step before are not returned.
\<close>

theorem divergence_stops_with_latest_densities:
  assumes "emap (rank_setup P) ranks = Inr sts0"
    and "advance K P [0..<i] (10 ^ 20) sts0 = Some (prev, sts)" and "i < p_num_t P"
    and "\<forall>st\<in>set sts. 0 \<le> k_reason (K (r_cfg st) (r_op st) (r_old st))"
    and "step_residual K P sts = Inr g" and "prev < g"
    and "1 / 10 < real i / real (p_num_t P)"
  shows "evolve_ranks K P ranks =
     Inr (map2 (\<lambda>st0 st. Some (unflatten (r_num_states st0) (r_loc_num_x st0)
                               (k_sol (K (r_cfg st) (r_op st) (r_old st))))) sts0 sts)"
proof -
  from assms(5) obtain outs where outs: "emap (rank_step K P) sts = Inr outs"
    and g: "np_max (map o_dndt outs) = Inr g"
    unfolding step_residual_Inr by blast
  have a: "loop_body K P i prev sts = Inr (Stop (map o_state outs))"
    by (rule loop_body_divergence [OF outs assms(4) g assms(6,7)])
  have vs: "map r_new (map o_state outs) = map (\<lambda>st. k_sol (K (r_cfg st) (r_op st) (r_old st))) sts"
    by (rule no_failure_flags(2) [OF outs assms(4)])
  have "evolve_ranks K P ranks =
      Inr (map2 (\<lambda>st v. Some (unflatten (r_num_states st) (r_loc_num_x st) v)) sts0
             (map r_new (map o_state outs)))"
    using evolve_ranks_at_step [OF assms(1,2,3) a] by (simp only: outcome.case)
  then show ?thesis
    unfolding vs by (simp add: zip_map2 split_def)
qed

text \<open>
  An instance: two ranks with one cell of one state each, rate matrix \<open>[[1]]\<close> and time
  step \<open>1/2\<close>, so the exact solve doubles the density. The second solver reports a
  failure on the right-hand side \<open>[6]\<close>.
\<close>

definition ex_ksp_ok :: ksp where
  "ex_ksp_ok cfg A b = \<lparr>k_reason = 2, k_its = 1, k_sol = map (\<lambda>x. 2 * x) b\<rparr>"

definition ex_ksp_fail :: ksp where
  "ex_ksp_fail cfg A b =
     \<lparr>k_reason = (if b = [6] then - 3 else 2), k_its = 1, k_sol = map (\<lambda>x. 2 * x) b\<rparr>"

definition ex_params :: evolve_params where
  "ex_params = \<lparr>p_dt = 1 / 2, p_num_t = 2, p_dndt_thresh = 1 / 100000,
                p_ksp_solver = ''ibcgs'', p_ksp_pc = Some ''bjacobi'', p_ksp_tol = 1 / 10\<rparr>"

definition ex_ranks :: "rank_args list" where
  "ex_ranks = [\<lparr>loc_num_x = 1, min_x = 0, max_x = 1, rate_matrix = [[1]], n_init = [[1], [3]]\<rparr>,
               \<lparr>loc_num_x = 1, min_x = 1, max_x = 2, rate_matrix = [[1]], n_init = [[1], [3]]\<rparr>]"

definition ex_rank_state :: "real \<Rightarrow> real \<Rightarrow> real \<Rightarrow> rank_state" where
  "ex_rank_state tol old new =
     \<lparr>r_num_states = 1, r_loc_num_x = 1, r_op = [[1 / 2]],
      r_cfg = \<lparr>k_type = ''ibcgs'', k_pc = Some ''bjacobi'', k_rtol = tol\<rparr>,
      r_old = [old], r_new = [new]\<rparr>"

definition ex_sts0 :: "rank_state list" where
  "ex_sts0 = [ex_rank_state (1 / 10) 1 0, ex_rank_state (3 / 10) 3 0]"

definition ex_sts1 :: "rank_state list" where
  "ex_sts1 = [ex_rank_state (1 / 10) 2 2, ex_rank_state (3 / 10) 6 6]"

lemma ex_setup: "emap (rank_setup ex_params) ex_ranks = Inr ex_sts0"
  by (simp add: ex_ranks_def rank_setup_def ex_params_def ebind_def nth_err_def local_rows_def
      be_operator_def identity_def ex_sts0_def ex_rank_state_def Let_def)

lemma ex_advance_ok: "advance ex_ksp_ok ex_params [0..<1] (10 ^ 20) ex_sts0 = Some (6, ex_sts1)"
  by (simp add: loop_body_def rank_step_def ex_ksp_ok_def ex_params_def ebind_def ex_sts0_def
      ex_sts1_def ex_rank_state_def Let_def)

lemma ex_advance_fail: "advance ex_ksp_fail ex_params [0..<1] (10 ^ 20) ex_sts0 = Some (6, ex_sts1)"
  by (simp add: loop_body_def rank_step_def ex_ksp_fail_def ex_params_def ebind_def ex_sts0_def
      ex_sts1_def ex_rank_state_def Let_def)

lemma ex_residual_ok: "step_residual ex_ksp_ok ex_params ex_sts1 = Inr 12"
  by (simp add: step_residual_def rank_step_def ex_ksp_ok_def ex_params_def ebind_def
      ex_sts1_def ex_rank_state_def Let_def)

lemma ex_residual_fail: "step_residual ex_ksp_fail ex_params ex_sts1 = Inr 12"
  by (simp add: step_residual_def rank_step_def ex_ksp_fail_def ex_params_def ebind_def
      ex_sts1_def ex_rank_state_def Let_def)

theorem solver_failure_aborts_every_rank_witness:
  "loop_body ex_ksp_fail ex_params 1 6 ex_sts1 = Inr Abort \<and>
   evolve_ranks ex_ksp_fail ex_params ex_ranks = Inr (replicate (length ex_ranks) None)"
proof -
  have i: "1 < p_num_t ex_params" by (simp add: ex_params_def)
  have f: "\<exists>st\<in>set ex_sts1. k_reason (ex_ksp_fail (r_cfg st) (r_op st) (r_old st)) < 0"
    by (simp add: ex_sts1_def ex_rank_state_def ex_ksp_fail_def)
  have a: "advance ex_ksp_fail ex_params [0..<1] (10 ^ 20) ex_sts0 = Some (6, ex_sts1)"
    by (rule ex_advance_fail)
  show ?thesis
    by (rule solver_failure_aborts_every_rank [OF ex_setup a i ex_residual_fail f])
qed

theorem divergence_stops_with_latest_densities_witness:
  "evolve_ranks ex_ksp_ok ex_params ex_ranks = Inr [Some [[4]], Some [[12]]]"
proof -
  have i: "1 < p_num_t ex_params" by (simp add: ex_params_def)
  have ok: "\<forall>st\<in>set ex_sts1. 0 \<le> k_reason (ex_ksp_ok (r_cfg st) (r_op st) (r_old st))"
    by (simp add: ex_ksp_ok_def)
  have up: "(6::real) < 12" by simp
  have late: "1 / 10 < real 1 / real (p_num_t ex_params)" by (simp add: ex_params_def)
  have a: "advance ex_ksp_ok ex_params [0..<1] (10 ^ 20) ex_sts0 = Some (6, ex_sts1)"
    by (rule ex_advance_ok)
  from divergence_stops_with_latest_densities [OF ex_setup a i ok ex_residual_ok up late]
  show ?thesis
    by (simp add: ex_sts0_def ex_sts1_def ex_rank_state_def ex_ksp_ok_def unflatten_def)
qed

text \<open>
  Claim C6 as stated fails in two ways, both at step 1 of the instance, where the
  residual rises from 6 to 12 after the settling window. With no failed solve the ranks
  return \<open>[[4]]\<close> and \<open>[[12]]\<close>, the densities of the very step whose residual rose:
  \<open>n_old\<close> was overwritten before the test, and the densities \<open>[[2]]\<close> and \<open>[[6]]\<close> that
  the last accepted step had left are not what is returned. With a failed solve in that
  step the failure is tested first and the ranks return \<open>None\<close>.
\<close>

theorem divergence_returns_diverged_step_or_None:
  "advance ex_ksp_ok ex_params [0..<1] (10 ^ 20) ex_sts0 = Some (6, ex_sts1) \<and>
   map (\<lambda>st. unflatten (r_num_states st) (r_loc_num_x st) (r_new st)) ex_sts1 = [[[2]], [[6]]] \<and>
   map (\<lambda>st. k_reason (ex_ksp_ok (r_cfg st) (r_op st) (r_old st))) ex_sts1 = [2, 2] \<and>
   step_residual ex_ksp_ok ex_params ex_sts1 = Inr 12 \<and> (6::real) < 12 \<and>
   1 / 10 < real 1 / real (p_num_t ex_params) \<and>
   evolve_ranks ex_ksp_ok ex_params ex_ranks = Inr [Some [[4]], Some [[12]]] \<and>
   advance ex_ksp_fail ex_params [0..<1] (10 ^ 20) ex_sts0 = Some (6, ex_sts1) \<and>
   step_residual ex_ksp_fail ex_params ex_sts1 = Inr 12 \<and>
   evolve_ranks ex_ksp_fail ex_params ex_ranks = Inr [None, None]"
proof -
  have i: "1 < p_num_t ex_params" by (simp add: ex_params_def)
  have late: "1 / 10 < real 1 / real (p_num_t ex_params)" by (simp add: ex_params_def)
  have stable: "map (\<lambda>st. unflatten (r_num_states st) (r_loc_num_x st) (r_new st)) ex_sts1 = [[[2]], [[6]]]"
    by (simp add: ex_sts1_def ex_rank_state_def unflatten_def)
  have reasons: "map (\<lambda>st. k_reason (ex_ksp_ok (r_cfg st) (r_op st) (r_old st))) ex_sts1 = [2, 2]"
    by (simp add: ex_sts1_def ex_ksp_ok_def)
  have ok: "\<forall>st\<in>set ex_sts1. 0 \<le> k_reason (ex_ksp_ok (r_cfg st) (r_op st) (r_old st))"
    by (simp add: ex_ksp_ok_def)
  from ex_residual_ok obtain outs where
    outs: "emap (rank_step ex_ksp_ok ex_params) ex_sts1 = Inr outs"
    and g: "np_max (map o_dndt outs) = Inr 12"
    unfolding step_residual_Inr by blast
  have up: "(6::real) < 12" by simp
  have b: "loop_body ex_ksp_ok ex_params 1 6 ex_sts1 = Inr (Stop (map o_state outs))"
    by (rule loop_body_divergence [OF outs ok g up late])
  have vs: "map r_new (map o_state outs) = [[4], [12]]"
    unfolding no_failure_flags(2) [OF outs ok]
    by (simp add: ex_sts1_def ex_rank_state_def ex_ksp_ok_def)
  have "evolve_ranks ex_ksp_ok ex_params ex_ranks =
      Inr (map2 (\<lambda>st v. Some (unflatten (r_num_states st) (r_loc_num_x st) v)) ex_sts0
             (map r_new (map o_state outs)))"
    using evolve_ranks_at_step [OF ex_setup ex_advance_ok i b] by (simp only: outcome.case)
  then have run_ok: "evolve_ranks ex_ksp_ok ex_params ex_ranks = Inr [Some [[4]], Some [[12]]]"
    unfolding vs by (simp add: ex_sts0_def ex_rank_state_def unflatten_def)
  have f: "\<exists>st\<in>set ex_sts1. k_reason (ex_ksp_fail (r_cfg st) (r_op st) (r_old st)) < 0"
    by (simp add: ex_sts1_def ex_rank_state_def ex_ksp_fail_def)
  from ex_residual_fail obtain outs' where
    outs': "emap (rank_step ex_ksp_fail ex_params) ex_sts1 = Inr outs'"
    unfolding step_residual_Inr by blast
  have a: "loop_body ex_ksp_fail ex_params 1 6 ex_sts1 = Inr Abort"
    by (rule loop_body_abort [OF outs' f])
  have run_fail: "evolve_ranks ex_ksp_fail ex_params ex_ranks = Inr [None, None]"
    using evolve_ranks_at_step [OF ex_setup ex_advance_fail i a] by (simp add: ex_sts0_def)
  show ?thesis
    using ex_advance_ok stable reasons ex_residual_ok late run_ok ex_advance_fail ex_residual_fail
      run_fail
    by simp
qed











end
